theory Spec2Isabelle
  imports Complex_Main "HOL-Library.Word"
begin

unbundle bit_operations_syntax

section \<open>utils.h: constants of the bus transaction layer\<close>

type_synonym u8 = "8 word"

text \<open>\<open>size_t\<close> of the target (RP2040, a 32-bit core); subtraction wraps around.\<close>

type_synonym size_t = "32 word"

definition kDefaultAddress :: u8 where
  "kDefaultAddress = 0x17"

definition kSTkErrOk :: int where
  "kSTkErrOk = 0"

definition kSTkErrFail :: int where
  "kSTkErrFail = - 1"

definition kSTkErrBaseBus :: int where
  "kSTkErrBaseBus = 0x1000"

definition kSTkErrBusNotInit :: int where
  "kSTkErrBusNotInit = kSTkErrFail * (kSTkErrBaseBus + 1)"

definition kSTkErrBusNullBuffer :: int where
  "kSTkErrBusNullBuffer = kSTkErrFail * (kSTkErrBaseBus + 6)"

definition kSTkErrBusUnderRead :: int where
  "kSTkErrBusUnderRead = kSTkErrBaseBus + 7"

definition kDefaultBufferChunk :: size_t where
  "kDefaultBufferChunk = 32"

section \<open>The transport collaborator\<close>

text \<open>
  The I2C peripheral of the SDK is outside the repository. It is a deterministic state
  machine over a device state \<open>'s\<close>: a blocking write reports how many bytes were
  accepted, a blocking read reports the bytes it stored at the destination, and each
  reports \<open>None\<close> for the SDK's negative error return. \<open>i2c_port\<close> says whether
  \<open>CONFIG::i2c_port\<close> is a non-null instance.
\<close>

record 's i2c =
  i2c_port :: bool
  i2c_write_blocking :: "'s \<Rightarrow> u8 \<Rightarrow> u8 list \<Rightarrow> bool \<Rightarrow> nat option \<times> 's"
  i2c_read_blocking :: "'s \<Rightarrow> u8 \<Rightarrow> nat \<Rightarrow> bool \<Rightarrow> u8 list option \<times> 's"

definition PICO_ERROR_GENERIC :: int where
  "PICO_ERROR_GENERIC = - 1"

text \<open>
  Every call that leaves the driver is recorded, in order: a write with its payload, its
  nostop flag and what the transport answered; a read with the requested length, its
  nostop flag and the answer; a delay with its milliseconds.
\<close>

datatype bus_event =
  I2cWrite "u8 list" bool "nat option"
| I2cRead nat bool "u8 list option"
| DelayMs nat

record 's bus =
  dev :: 's
  trace :: "bus_event list"

text \<open>\<open>i2c_write_blocking(CONFIG::i2c_port, kDefaultAddress, src, len, nostop)\<close> as the
  caller sees it: the \<open>int\<close> it returns.\<close>

definition write_blocking :: "'s i2c \<Rightarrow> u8 list \<Rightarrow> bool \<Rightarrow> 's bus \<Rightarrow> int \<times> 's bus" where
  "write_blocking tr src nostop st =
     (case i2c_write_blocking tr (dev st) kDefaultAddress src nostop of
        (r, d) \<Rightarrow>
          ((case r of None \<Rightarrow> PICO_ERROR_GENERIC | Some n \<Rightarrow> int n),
           \<lparr>dev = d, trace = trace st @ [I2cWrite src nostop r]\<rparr>))"

text \<open>\<open>i2c_read_blocking(CONFIG::i2c_port, kDefaultAddress, dst, len, nostop)\<close>: the
  \<open>int\<close> it returns and the bytes now at \<open>dst\<close>.\<close>

definition read_blocking :: "'s i2c \<Rightarrow> nat \<Rightarrow> bool \<Rightarrow> 's bus \<Rightarrow> int \<times> u8 list \<times> 's bus" where
  "read_blocking tr len nostop st =
     (case i2c_read_blocking tr (dev st) kDefaultAddress len nostop of
        (r, d) \<Rightarrow>
          ((case r of None \<Rightarrow> PICO_ERROR_GENERIC | Some bs \<Rightarrow> int (length bs)),
           (case r of None \<Rightarrow> [] | Some bs \<Rightarrow> bs),
           \<lparr>dev = d, trace = trace st @ [I2cRead len nostop r]\<rparr>))"

text \<open>\<open>delayMs\<close> is the platform's sleep; only the request is recorded.\<close>

definition delayMs :: "nat \<Rightarrow> 's bus \<Rightarrow> 's bus" where
  "delayMs ms st = st\<lparr>trace := trace st @ [DelayMs ms]\<rparr>"

section \<open>utils.cpp: the bus transaction layer\<close>

text \<open>A reference parameter is an argument and a result. \<open>dataToRead\<close> keeps its value
  when the transport stored nothing.\<close>

definition readRegisterByte :: "'s i2c \<Rightarrow> u8 \<Rightarrow> u8 \<Rightarrow> 's bus \<Rightarrow> int \<times> u8 \<times> 's bus" where
  "readRegisterByte tr devReg dataToRead st =
     (if \<not> i2c_port tr then (kSTkErrBusNotInit, dataToRead, st)
      else
        case write_blocking tr [devReg] True st of
          (result, st1) \<Rightarrow>
            if result < 0 then (kSTkErrFail, dataToRead, st1)
            else
              case read_blocking tr 1 False st1 of
                (result2, bytes, st2) \<Rightarrow>
                  (if result2 = 1 then kSTkErrOk else kSTkErrFail,
                   (case bytes of [] \<Rightarrow> dataToRead | b # _ \<Rightarrow> b),
                   st2))"

definition writeRegisterByte :: "'s i2c \<Rightarrow> u8 \<Rightarrow> u8 \<Rightarrow> 's bus \<Rightarrow> int \<times> 's bus" where
  "writeRegisterByte tr devReg dataToWrite st =
     (if \<not> i2c_port tr then (kSTkErrBusNotInit, st)
      else
        case write_blocking tr [devReg, dataToWrite] False st of
          (result, st1) \<Rightarrow> (if result = 2 then kSTkErrOk else kSTkErrFail, st1))"

text \<open>How a loop of the source is left: by a \<open>return\<close> inside its body, or by its
  condition turning false.\<close>

datatype 'a loop_exit = Returned int 'a | Exited 'a

text \<open>
  The \<open>while (numBytes > 0)\<close> loop of \<open>readRegisterRegionAnyAddress\<close>. Its state is
  \<open>firstIteration\<close>, \<open>numBytes\<close>, the bytes stored so far below the cursor \<open>data\<close>,
  and the bus. \<open>nChunk\<close> is a \<open>uint8_t\<close>; \<open>numBytes -= nReturned\<close> converts the
  \<open>int\<close> to \<open>size_t\<close>. The loop has no bound of its own, so not returning is \<open>None\<close>.
\<close>

partial_function (option) region_loop ::
  "'s i2c \<Rightarrow> u8 list \<Rightarrow> bool \<Rightarrow> size_t \<Rightarrow> u8 list \<Rightarrow> 's bus \<Rightarrow>
     (size_t \<times> u8 list \<times> 's bus) loop_exit option" where
  "region_loop tr devReg firstIteration numBytes stored st =
     (if numBytes > 0 then
        case (if firstIteration then write_blocking tr devReg True st else (0, st)) of
          (result, st1) \<Rightarrow>
            if result < 0 then Some (Returned kSTkErrFail (numBytes, stored, st1))
            else
              let nChunk = (if numBytes > kDefaultBufferChunk then ucast kDefaultBufferChunk
                            else ucast numBytes) :: u8
              in case read_blocking tr (unat nChunk) (numBytes > ucast nChunk) st1 of
                   (nReturned, bytes, st2) \<Rightarrow>
                     if nReturned < 0 then Some (Returned kSTkErrFail (numBytes, stored, st2))
                     else region_loop tr devReg False (numBytes - word_of_int nReturned)
                            (stored @ bytes) st2
      else Some (Exited (numBytes, stored, st)))"

declare region_loop.simps [code]

text \<open>
  \<open>data\<close> is \<open>None\<close> for a null pointer and the buffer's contents otherwise; the
  bytes stored replace the buffer's front. \<open>readBytes\<close> is a reference: it is left as
  it was by the first two returns, and is 0 after a \<open>return\<close> inside the loop.
\<close>

definition readRegisterRegionAnyAddress ::
  "'s i2c \<Rightarrow> u8 list \<Rightarrow> u8 list option \<Rightarrow> size_t \<Rightarrow> size_t \<Rightarrow> 's bus \<Rightarrow>
     (int \<times> u8 list option \<times> size_t \<times> 's bus) option" where
  "readRegisterRegionAnyAddress tr devReg data numBytes readBytes st =
     (if \<not> i2c_port tr then Some (kSTkErrBusNotInit, data, readBytes, st)
      else
        case data of
          None \<Rightarrow> Some (kSTkErrBusNullBuffer, data, readBytes, st)
        | Some buf \<Rightarrow>
            let nOrig = numBytes in
            (case region_loop tr devReg True numBytes [] st of
               None \<Rightarrow> None
             | Some (Returned e (n, stored, st')) \<Rightarrow>
                 Some (e, Some (stored @ drop (length stored) buf), 0, st')
             | Some (Exited (n, stored, st')) \<Rightarrow>
                 Some (if nOrig - n = nOrig then kSTkErrOk else kSTkErrBusUnderRead,
                       Some (stored @ drop (length stored) buf), nOrig - n, st')))"

definition readRegisterRegion ::
  "'s i2c \<Rightarrow> u8 \<Rightarrow> u8 list option \<Rightarrow> size_t \<Rightarrow> size_t \<Rightarrow> 's bus \<Rightarrow>
     (int \<times> u8 list option \<times> size_t \<times> 's bus) option" where
  "readRegisterRegion tr devReg data numBytes readBytes st =
     readRegisterRegionAnyAddress tr [devReg] data numBytes readBytes st"

section \<open>sfeQwiicOtos.h: what the driver takes from its header\<close>

text \<open>
  The header sfeQwiicOtos.h is not among the sources. The register addresses, the two unit
  constants and the bit positions of the self-test register's one-bit fields are
  parameters of the model: every theorem holds for all of them.
\<close>

record otos_header =
  kRegScalarLinear :: u8
  kRegScalarAngular :: u8
  kRegImuCalib :: u8
  kRegSelfTest :: u8
  kMeterToInch :: real
  kRadianToDegree :: real
  selfTest_start :: nat
  selfTest_inProgress :: nat
  selfTest_pass :: nat

text \<open>Modelled from the spec: \<open>kMinScalar\<close> and \<open>kMaxScalar\<close> are declared in
  sfeQwiicOtos.h, which is missing; the spec gives the accepted interval as
  [0.875, 1.125].\<close>

definition kMinScalar :: real where
  "kMinScalar = 0.875"

definition kMaxScalar :: real where
  "kMaxScalar = 1.125"

text \<open>Modelled from the spec: the two unit enumerations of the missing header, with the
  members the source names (linear: meters or inches; angular: radians or degrees).\<close>

datatype sfe_otos_linear_unit_t = kSfeOtosLinearUnitMeters | kSfeOtosLinearUnitInches

datatype sfe_otos_angular_unit_t = kSfeOtosAngularUnitRadians | kSfeOtosAngularUnitDegrees

record sfe_otos_pose2d_t =
  pose_x :: real
  pose_y :: real
  pose_h :: real

section \<open>Floating point\<close>

text \<open>
  A \<open>float\<close> is modelled by the real number it denotes. Each arithmetic operation of
  the source is the exact operation followed by the rounding \<open>fl\<close> to the nearest
  \<open>float\<close>, a parameter; a decimal literal such as \<open>0.001f\<close> is rounded likewise.
  Conversions of 8- and 16-bit integers to \<open>float\<close> are exact. Comparisons do not round.
\<close>

type_synonym rounding = "real \<Rightarrow> real"

text \<open>The magnitudes at which binary32 has its full 24-bit precision: from the smallest
  normal number \<open>2^-126\<close> up to \<open>2^127\<close> (the largest finite number lies above).\<close>

definition binary32_normal :: "real \<Rightarrow> bool" where
  "binary32_normal v = (1 / 2 ^ 126 \<le> \<bar>v\<bar> \<and> \<bar>v\<bar> \<le> 2 ^ 127)"

text \<open>What rounding to the nearest binary32 number guarantees: zero is kept, and a value
  of normal magnitude is met within the relative error \<open>2^-24\<close>. Nothing is asked of
  the rounding where binary32 underflows or overflows.\<close>

definition rounds_to_nearest :: "rounding \<Rightarrow> bool" where
  "rounds_to_nearest fl =
     (fl 0 = 0 \<and> (\<forall>v. binary32_normal v \<longrightarrow> \<bar>fl v - v\<bar> \<le> \<bar>v\<bar> / 2 ^ 24))"

text \<open>The conversion of a \<open>float\<close> to an integer type discards the fraction (C++
  [conv.fpint]): it truncates towards zero.\<close>

definition float_to_int :: "real \<Rightarrow> int" where
  "float_to_int v = (if v < 0 then \<lceil>v\<rceil> else \<lfloor>v\<rfloor>)"

section \<open>sfeQwiicOtos.cpp: the driver\<close>

record sfeQwiicOtos =
  linearUnit :: sfe_otos_linear_unit_t
  angularUnit :: sfe_otos_angular_unit_t
  meterToUnit :: real
  radToUnit :: real

text \<open>The constructor.\<close>

definition sfeQwiicOtos_init :: "otos_header \<Rightarrow> sfeQwiicOtos" where
  "sfeQwiicOtos_init hdr =
     \<lparr>linearUnit = kSfeOtosLinearUnitInches, angularUnit = kSfeOtosAngularUnitDegrees,
      meterToUnit = kMeterToInch hdr, radToUnit = kRadianToDegree hdr\<rparr>"

text \<open>
  \<open>selfTest\<close>. The local union \<open>selfTest\<close> is not initialised before its \<open>start\<close>
  field is set: \<open>selfTest0\<close> is the byte it happens to hold. The loop
  \<open>for (int i = 0; i < 10; i++)\<close> carries \<open>i\<close> and \<open>selfTest.value\<close>.
\<close>

function selfTest_loop ::
  "otos_header \<Rightarrow> 's i2c \<Rightarrow> nat \<Rightarrow> u8 \<Rightarrow> 's bus \<Rightarrow> (u8 \<times> 's bus) loop_exit" where
  "selfTest_loop hdr tr i selfTest_value st =
     (if i < 10 then
        case readRegisterByte tr (kRegSelfTest hdr) selfTest_value (delayMs 5 st) of
          (err, selfTest_value', st1) \<Rightarrow>
            if err \<noteq> kSTkErrOk then Returned err (selfTest_value', st1)
            else if \<not> bit selfTest_value' (selfTest_inProgress hdr)
              then Exited (selfTest_value', st1)
            else selfTest_loop hdr tr (i + 1) selfTest_value' st1
      else Exited (selfTest_value, st))"
  by pat_completeness auto
termination
  by (relation "measure (\<lambda>(hdr, tr, i, v, st). 10 - i)") auto

declare selfTest_loop.simps [simp del]

definition selfTest :: "otos_header \<Rightarrow> 's i2c \<Rightarrow> u8 \<Rightarrow> 's bus \<Rightarrow> int \<times> 's bus" where
  "selfTest hdr tr selfTest0 st =
     (let selfTest_value = set_bit (selfTest_start hdr) selfTest0 in
      case writeRegisterByte tr (kRegSelfTest hdr) selfTest_value st of
        (err, st1) \<Rightarrow>
          if err \<noteq> kSTkErrOk then (err, st1)
          else
            (case selfTest_loop hdr tr 0 selfTest_value st1 of
               Returned err' (v, st2) \<Rightarrow> (err', st2)
             | Exited (v, st2) \<Rightarrow>
                 (if bit v (selfTest_pass hdr) then kSTkErrOk else kSTkErrFail, st2)))"

text \<open>
  \<open>calibrateImu\<close>. The loop \<open>for (uint8_t numAttempts = numSamples; numAttempts > 0;
  numAttempts--)\<close> with the \<open>return kSTkErrFail\<close> that follows it. The local
  \<open>calibrationValue\<close> is declared without a value in each round:
  \<open>calibrationValue0\<close> is the byte it happens to hold.
\<close>

function calibrateImu_loop ::
  "otos_header \<Rightarrow> 's i2c \<Rightarrow> u8 \<Rightarrow> u8 \<Rightarrow> 's bus \<Rightarrow> int \<times> 's bus" where
  "calibrateImu_loop hdr tr calibrationValue0 numAttempts st =
     (if numAttempts > 0 then
        case readRegisterByte tr (kRegImuCalib hdr) calibrationValue0 st of
          (err, calibrationValue, st1) \<Rightarrow>
            if err \<noteq> kSTkErrOk then (err, st1)
            else if calibrationValue = 0 then (kSTkErrOk, st1)
            else calibrateImu_loop hdr tr calibrationValue0 (numAttempts - 1) (delayMs 3 st1)
      else (kSTkErrFail, st))"
  by pat_completeness auto
termination
  by (relation "measure (\<lambda>(hdr, tr, c, numAttempts, st). unat numAttempts)")
    (auto simp: unat_minus_one word_greater_zero_iff unat_gt_0)

declare calibrateImu_loop.simps [simp del]

definition calibrateImu ::
  "otos_header \<Rightarrow> 's i2c \<Rightarrow> u8 \<Rightarrow> u8 \<Rightarrow> bool \<Rightarrow> 's bus \<Rightarrow> int \<times> 's bus" where
  "calibrateImu hdr tr calibrationValue0 numSamples waitUntilDone st =
     (case writeRegisterByte tr (kRegImuCalib hdr) numSamples st of
        (err, st1) \<Rightarrow>
          if err \<noteq> kSTkErrOk then (err, st1)
          else
            let st2 = delayMs 3 st1 in
            if \<not> waitUntilDone then (kSTkErrOk, st2)
            else calibrateImu_loop hdr tr calibrationValue0 numSamples st2)"

definition getImuCalibrationProgress ::
  "otos_header \<Rightarrow> 's i2c \<Rightarrow> u8 \<Rightarrow> 's bus \<Rightarrow> int \<times> u8 \<times> 's bus" where
  "getImuCalibrationProgress hdr tr numSamples st =
     readRegisterByte tr (kRegImuCalib hdr) numSamples st"

definition getLinearUnit :: "sfeQwiicOtos \<Rightarrow> sfe_otos_linear_unit_t" where
  "getLinearUnit this = linearUnit this"

definition setLinearUnit ::
  "otos_header \<Rightarrow> sfe_otos_linear_unit_t \<Rightarrow> sfeQwiicOtos \<Rightarrow> sfeQwiicOtos" where
  "setLinearUnit hdr unit this =
     (if unit = linearUnit this then this
      else this\<lparr>linearUnit := unit,
                meterToUnit :=
                  (if unit = kSfeOtosLinearUnitMeters then 1 else kMeterToInch hdr)\<rparr>)"

definition getAngularUnit :: "sfeQwiicOtos \<Rightarrow> sfe_otos_angular_unit_t" where
  "getAngularUnit this = angularUnit this"

definition setAngularUnit ::
  "otos_header \<Rightarrow> sfe_otos_angular_unit_t \<Rightarrow> sfeQwiicOtos \<Rightarrow> sfeQwiicOtos" where
  "setAngularUnit hdr unit this =
     (if unit = angularUnit this then this
      else this\<lparr>angularUnit := unit,
                radToUnit :=
                  (if unit = kSfeOtosAngularUnitRadians then 1 else kRadianToDegree hdr)\<rparr>)"

text \<open>The scalar getters. \<open>rawScalar0\<close> is the byte the uninitialised local
  \<open>rawScalar\<close> happens to hold; \<open>scalar\<close> is a reference.\<close>

definition getLinearScalar ::
  "rounding \<Rightarrow> otos_header \<Rightarrow> 's i2c \<Rightarrow> u8 \<Rightarrow> real \<Rightarrow> 's bus \<Rightarrow> int \<times> real \<times> 's bus" where
  "getLinearScalar fl hdr tr rawScalar0 scalar st =
     (case readRegisterByte tr (kRegScalarLinear hdr) rawScalar0 st of
        (err, rawScalar, st1) \<Rightarrow>
          if err \<noteq> kSTkErrOk then (kSTkErrFail, scalar, st1)
          else (kSTkErrOk, fl (fl (real_of_int (sint rawScalar) * fl 0.001) + 1), st1))"

definition setLinearScalar ::
  "rounding \<Rightarrow> otos_header \<Rightarrow> 's i2c \<Rightarrow> real \<Rightarrow> 's bus \<Rightarrow> int \<times> 's bus" where
  "setLinearScalar fl hdr tr scalar st =
     (if scalar < kMinScalar \<or> scalar > kMaxScalar then (kSTkErrFail, st)
      else
        let rawScalar = (word_of_int (float_to_int (fl (fl (fl (scalar - 1) * 1000) + 0.5))) :: u8)
        in writeRegisterByte tr (kRegScalarLinear hdr) rawScalar st)"

definition getAngularScalar ::
  "rounding \<Rightarrow> otos_header \<Rightarrow> 's i2c \<Rightarrow> u8 \<Rightarrow> real \<Rightarrow> 's bus \<Rightarrow> int \<times> real \<times> 's bus" where
  "getAngularScalar fl hdr tr rawScalar0 scalar st =
     (case readRegisterByte tr (kRegScalarAngular hdr) rawScalar0 st of
        (err, rawScalar, st1) \<Rightarrow>
          if err \<noteq> kSTkErrOk then (kSTkErrFail, scalar, st1)
          else (kSTkErrOk, fl (fl (real_of_int (sint rawScalar) * fl 0.001) + 1), st1))"

definition setAngularScalar ::
  "rounding \<Rightarrow> otos_header \<Rightarrow> 's i2c \<Rightarrow> real \<Rightarrow> 's bus \<Rightarrow> int \<times> 's bus" where
  "setAngularScalar fl hdr tr scalar st =
     (if scalar < kMinScalar \<or> scalar > kMaxScalar then (kSTkErrFail, st)
      else
        let rawScalar = (word_of_int (float_to_int (fl (fl (fl (scalar - 1) * 1000) + 0.5))) :: u8)
        in writeRegisterByte tr (kRegScalarAngular hdr) rawScalar st)"

text \<open>
  The pose codec. \<open>rawData\<close> points at six bytes. \<open>(rawData[1] << 8) | rawData[0]\<close>
  is computed in \<open>int\<close> and stored in an \<open>int16_t\<close>; the product with a \<open>float\<close>
  converts it exactly.
\<close>

definition regs_int16 :: "u8 list \<Rightarrow> nat \<Rightarrow> 16 word" where
  "regs_int16 rawData i = push_bit 8 (ucast (rawData ! (i + 1))) OR ucast (rawData ! i)"

definition regsToPose ::
  "rounding \<Rightarrow> sfeQwiicOtos \<Rightarrow> u8 list \<Rightarrow> real \<Rightarrow> real \<Rightarrow> sfe_otos_pose2d_t" where
  "regsToPose fl this rawData rawToXY rawToH =
     (let rawX = regs_int16 rawData 0;
          rawY = regs_int16 rawData 2;
          rawH = regs_int16 rawData 4
      in \<lparr>pose_x = fl (fl (real_of_int (sint rawX) * rawToXY) * meterToUnit this),
          pose_y = fl (fl (real_of_int (sint rawY) * rawToXY) * meterToUnit this),
          pose_h = fl (fl (real_of_int (sint rawH) * rawToH) * radToUnit this)\<rparr>)"

text \<open>The conversion of the quotient to \<open>int16_t\<close> truncates; outside the range of
  \<open>int16_t\<close> C++ leaves it undefined, and the model wraps.\<close>

definition poseToRegs ::
  "rounding \<Rightarrow> sfeQwiicOtos \<Rightarrow> u8 list \<Rightarrow> sfe_otos_pose2d_t \<Rightarrow> real \<Rightarrow> real \<Rightarrow> u8 list" where
  "poseToRegs fl this rawData pose xyToRaw hToRaw =
     (let rawX = (word_of_int (float_to_int (fl (fl (pose_x pose * xyToRaw) / meterToUnit this))) :: 16 word);
          rawY = (word_of_int (float_to_int (fl (fl (pose_y pose * xyToRaw) / meterToUnit this))) :: 16 word);
          rawH = (word_of_int (float_to_int (fl (fl (pose_h pose * hToRaw) / radToUnit this))) :: 16 word)
      in rawData
           [0 := ucast (rawX AND 0xFF),
            1 := ucast (signed_drop_bit 8 rawX AND 0xFF),
            2 := ucast (rawY AND 0xFF),
            3 := ucast (signed_drop_bit 8 rawY AND 0xFF),
            4 := ucast (rawH AND 0xFF),
            5 := ucast (signed_drop_bit 8 rawH AND 0xFF)])"

section \<open>Sequences of calls on one driver object\<close>

text \<open>
  The public methods modelled above, as calls on a driver object and its bus. A call's
  arguments include the bytes its uninitialised locals happen to hold. Only the two unit
  setters assign members of the object; the other methods leave it as it is, and their
  return values are dropped here.
\<close>

datatype otos_call =
  SetLinearUnit sfe_otos_linear_unit_t
| SetAngularUnit sfe_otos_angular_unit_t
| GetLinearScalar u8
| SetLinearScalar real
| GetAngularScalar u8
| SetAngularScalar real
| SelfTest u8
| CalibrateImu u8 u8 bool
| GetImuCalibrationProgress u8

fun call ::
  "rounding \<Rightarrow> otos_header \<Rightarrow> 's i2c \<Rightarrow> otos_call \<Rightarrow> sfeQwiicOtos \<times> 's bus \<Rightarrow>
     sfeQwiicOtos \<times> 's bus" where
  "call fl hdr tr (SetLinearUnit unit) (this, st) = (setLinearUnit hdr unit this, st)"
| "call fl hdr tr (SetAngularUnit unit) (this, st) = (setAngularUnit hdr unit this, st)"
| "call fl hdr tr (GetLinearScalar r) (this, st) =
     (this, snd (snd (getLinearScalar fl hdr tr r 0 st)))"
| "call fl hdr tr (SetLinearScalar scalar) (this, st) =
     (this, snd (setLinearScalar fl hdr tr scalar st))"
| "call fl hdr tr (GetAngularScalar r) (this, st) =
     (this, snd (snd (getAngularScalar fl hdr tr r 0 st)))"
| "call fl hdr tr (SetAngularScalar scalar) (this, st) =
     (this, snd (setAngularScalar fl hdr tr scalar st))"
| "call fl hdr tr (SelfTest v) (this, st) = (this, snd (selfTest hdr tr v st))"
| "call fl hdr tr (CalibrateImu c n w) (this, st) = (this, snd (calibrateImu hdr tr c n w st))"
| "call fl hdr tr (GetImuCalibrationProgress n) (this, st) =
     (this, snd (snd (getImuCalibrationProgress hdr tr n st)))"

definition calls ::
  "rounding \<Rightarrow> otos_header \<Rightarrow> 's i2c \<Rightarrow> otos_call list \<Rightarrow> sfeQwiicOtos \<times> 's bus \<Rightarrow>
     sfeQwiicOtos \<times> 's bus" where
  "calls fl hdr tr cs start = foldl (\<lambda>cur c. call fl hdr tr c cur) start cs"

text \<open>The factor that belongs to a unit selector.\<close>

definition linear_factor :: "otos_header \<Rightarrow> sfe_otos_linear_unit_t \<Rightarrow> real" where
  "linear_factor hdr unit =
     (case unit of kSfeOtosLinearUnitMeters \<Rightarrow> 1 | kSfeOtosLinearUnitInches \<Rightarrow> kMeterToInch hdr)"

definition angular_factor :: "otos_header \<Rightarrow> sfe_otos_angular_unit_t \<Rightarrow> real" where
  "angular_factor hdr unit =
     (case unit of kSfeOtosAngularUnitRadians \<Rightarrow> 1
      | kSfeOtosAngularUnitDegrees \<Rightarrow> kRadianToDegree hdr)"

definition units_consistent :: "otos_header \<Rightarrow> sfeQwiicOtos \<Rightarrow> bool" where
  "units_consistent hdr this =
     (meterToUnit this = linear_factor hdr (linearUnit this) \<and>
      radToUnit this = angular_factor hdr (angularUnit this))"

section \<open>Transports and a header for concrete runs\<close>

text \<open>A transport that accepts every write in full and answers the reads from a script,
  one entry per read; past the script's end a read fails.\<close>

definition scripted :: "u8 list option list i2c" where
  "scripted =
     \<lparr>i2c_port = True,
      i2c_write_blocking = (\<lambda>s a src nostop. (Some (length src), s)),
      i2c_read_blocking = (\<lambda>s a len nostop. case s of [] \<Rightarrow> (None, []) | r # rs \<Rightarrow> (r, rs))\<rparr>"

text \<open>A device that holds \<open>s\<close> more bytes (all zero): a read delivers as many of the
  requested bytes as are left and never reports an error.\<close>

definition fifo :: "nat i2c" where
  "fifo =
     \<lparr>i2c_port = True,
      i2c_write_blocking = (\<lambda>s a src nostop. (Some (length src), s)),
      i2c_read_blocking = (\<lambda>s a len nostop. (Some (replicate (min len s) 0), s - min len s))\<rparr>"

text \<open>A transport that delivers every read in full, whatever is asked.\<close>

definition full :: "unit i2c" where
  "full =
     \<lparr>i2c_port = True,
      i2c_write_blocking = (\<lambda>s a src nostop. (Some (length src), s)),
      i2c_read_blocking = (\<lambda>s a len nostop. (Some (replicate len 0), s))\<rparr>"

definition demo_header :: otos_header where
  "demo_header =
     \<lparr>kRegScalarLinear = 0x04, kRegScalarAngular = 0x05, kRegImuCalib = 0x06,
      kRegSelfTest = 0x0F, kMeterToInch = 39.37, kRadianToDegree = 57.29578,
      selfTest_start = 0, selfTest_inProgress = 1, selfTest_pass = 2\<rparr>"

definition bus0 :: "'s \<Rightarrow> 's bus" where
  "bus0 s = \<lparr>dev = s, trace = []\<rparr>"

section \<open>Reading the record of bus accesses\<close>

fun exit_state :: "'a loop_exit \<Rightarrow> 'a" where
  "exit_state (Returned e a) = a"
| "exit_state (Exited a) = a"

text \<open>A transfer that completed: a write that was accepted in full, a read that delivered
  as many bytes as were asked for.\<close>

fun transferred :: "bus_event \<Rightarrow> bool" where
  "transferred (I2cWrite src nostop r) = (r = Some (length src))"
| "transferred (I2cRead len nostop r) = (case r of None \<Rightarrow> False | Some bs \<Rightarrow> length bs = len)"
| "transferred (DelayMs ms) = True"

text \<open>What one round of the self-test loop leaves in the record when it reads \<open>v\<close>: the
  delay, the register address, the byte.\<close>

definition selfTest_poll :: "u8 \<Rightarrow> u8 \<Rightarrow> bus_event list" where
  "selfTest_poll reg v = [DelayMs 5, I2cWrite [reg] True (Some 1), I2cRead 1 False (Some [v])]"

text \<open>What one round of the calibration loop leaves when it reads \<open>v\<close>: the register
  address, the byte, and the delay unless the byte is zero.\<close>

definition calibrateImu_poll :: "u8 \<Rightarrow> u8 \<Rightarrow> bus_event list" where
  "calibrateImu_poll reg v =
     [I2cWrite [reg] True (Some 1), I2cRead 1 False (Some [v])] @ (if v = 0 then [] else [DelayMs 3])"

text \<open>The reads of a record, each with its requested length and its nostop flag.\<close>

fun read_requests :: "bus_event list \<Rightarrow> (nat \<times> bool) list" where
  "read_requests [] = []"
| "read_requests (I2cRead len nostop r # evs) = (len, nostop) # read_requests evs"
| "read_requests (ev # evs) = read_requests evs"

text \<open>The reads that fetch \<open>n\<close> bytes in chunks of 32: there are \<open>(n + 31) div 32\<close> of
  them, read \<open>i\<close> asks for what is left up to 32 bytes, and every read but the last holds
  the bus.\<close>

definition chunk_requests :: "nat \<Rightarrow> (nat \<times> bool) list" where
  "chunk_requests n =
     map (\<lambda>i. (min 32 (n - 32 * i), i + 1 < (n + 31) div 32)) [0..<(n + 31) div 32]"

text \<open>A transport whose reads either fail or deliver every byte asked for, as the SDK's
  blocking read does.\<close>

definition delivers_in_full :: "'s i2c \<Rightarrow> bool" where
  "delivers_in_full tr =
     (\<forall>s a len nostop.
        case fst (i2c_read_blocking tr s a len nostop) of
          None \<Rightarrow> True
        | Some bs \<Rightarrow> length bs = len)"

text \<open>A transport whose reads either fail or deliver at least one byte and no more than
  were asked for.\<close>

definition makes_progress :: "'s i2c \<Rightarrow> bool" where
  "makes_progress tr =
     (\<forall>s a len nostop.
        case fst (i2c_read_blocking tr s a len nostop) of
          None \<Rightarrow> True
        | Some bs \<Rightarrow> len = 0 \<or> (0 < length bs \<and> length bs \<le> len))"

text \<open>How the loop of \<open>readRegisterRegionAnyAddress\<close> can be left at all: by its
  \<open>return kSTkErrFail\<close>, or with \<open>numBytes\<close> at 0.\<close>

definition region_exit :: "(size_t \<times> u8 list \<times> 's bus) loop_exit \<Rightarrow> bool" where
  "region_exit out =
     (case out of Returned e a \<Rightarrow> e = kSTkErrFail | Exited (n, stored, st) \<Rightarrow> n = 0)"

text \<open>The loop's state when bytes are still wanted and the device \<open>fifo\<close> has none left.\<close>

definition stalled :: "nat i2c \<Rightarrow> size_t \<Rightarrow> nat bus \<Rightarrow> bool" where
  "stalled tr n st = (tr = fifo \<and> dev st = 0 \<and> n \<noteq> 0)"

text \<open>The signed 16-bit number that a pair of registers holds, low byte first, read by
  arithmetic alone: the two bytes are the base-256 digits of a number below 65536, which
  stands for itself below 32768 and for the number 65536 less otherwise (two's
  complement).\<close>

definition int16_le :: "u8 \<Rightarrow> u8 \<Rightarrow> int" where
  "int16_le lo hi =
     (let n = int (unat lo) + 256 * int (unat hi) in if n < 32768 then n else n - 65536)"

text \<open>A magnitude between \<open>2^-n\<close> and \<open>2^n\<close>.\<close>

definition magnitude_within :: "nat \<Rightarrow> real \<Rightarrow> bool" where
  "magnitude_within n x = (1 / 2 ^ n \<le> \<bar>x\<bar> \<and> \<bar>x\<bar> \<le> 2 ^ n)"

section \<open>Error codes\<close>

lemma kSTkErr_values:
  "kSTkErrOk = 0" "kSTkErrFail = - 1" "kSTkErrBusNotInit = - 4097"
  "kSTkErrBusNullBuffer = - 4102" "kSTkErrBusUnderRead = 4103"
  by (simp_all add: kSTkErrOk_def kSTkErrFail_def kSTkErrBusNotInit_def
      kSTkErrBusNullBuffer_def kSTkErrBusUnderRead_def kSTkErrBaseBus_def)

section \<open>The transports of the concrete runs\<close>

lemma fifo_fields:
  "i2c_port fifo"
  "i2c_write_blocking fifo s a src ns = (Some (length src), s)"
  "i2c_read_blocking fifo s a len ns = (Some (replicate (min len s) 0), s - min len s)"
  by (simp_all add: fifo_def)

lemma scripted_fields:
  "i2c_port scripted"
  "i2c_write_blocking scripted s a src ns = (Some (length src), s)"
  "i2c_read_blocking scripted [] a len ns = (None, [])"
  "i2c_read_blocking scripted (r # rs) a len ns = (r, rs)"
  by (simp_all add: scripted_def)

lemma full_fields:
  "i2c_port full"
  "i2c_write_blocking full s a src ns = (Some (length src), s)"
  "i2c_read_blocking full s a len ns = (Some (replicate len 0), s)"
  by (simp_all add: full_def)

section \<open>Single-byte transfers\<close>

lemma readRegisterByte_events:
  assumes "i2c_port tr" and "readRegisterByte tr reg d st = (err, d', st')"
  shows "\<exists>evs. trace st' = trace st @ evs \<and>
           (list_all transferred evs \<longrightarrow>
              err = kSTkErrOk \<and> evs = [I2cWrite [reg] True (Some 1), I2cRead 1 False (Some [d'])])"
proof -
  obtain r1 d1 where w: "i2c_write_blocking tr (dev st) kDefaultAddress [reg] True = (r1, d1)"
    by fastforce
  obtain r2 d2 where r: "i2c_read_blocking tr d1 kDefaultAddress 1 False = (r2, d2)"
    by fastforce
  show ?thesis
  proof (cases r1)
    case None
    with assms w show ?thesis
      by (auto simp: readRegisterByte_def write_blocking_def PICO_ERROR_GENERIC_def)
  next
    case (Some k)
    with assms w r show ?thesis
      by (cases r2)
        (auto simp: readRegisterByte_def write_blocking_def read_blocking_def
          PICO_ERROR_GENERIC_def length_Suc_conv split: list.splits)
  qed
qed

lemma writeRegisterByte_events:
  assumes "i2c_port tr" and "writeRegisterByte tr reg b st = (err, st')"
  shows "\<exists>r. trace st' = trace st @ [I2cWrite [reg, b] False r] \<and>
           (err = kSTkErrOk \<longleftrightarrow> r = Some 2) \<and> (err = kSTkErrOk \<or> err = kSTkErrFail)"
proof -
  obtain r1 d1 where w: "i2c_write_blocking tr (dev st) kDefaultAddress [reg, b] False = (r1, d1)"
    by fastforce
  with assms show ?thesis
    by (cases r1) (auto simp: writeRegisterByte_def write_blocking_def PICO_ERROR_GENERIC_def kSTkErr_values)
qed

section \<open>The self-test loop\<close>

lemma selfTest_loop_events:
  assumes port: "i2c_port tr"
  shows "\<exists>evs. trace (snd (exit_state (selfTest_loop hdr tr i v st))) = trace st @ evs \<and>
           (list_all transferred evs \<longrightarrow>
              (\<exists>vs. length vs \<le> 10 - i \<and> (i < 10 \<longrightarrow> vs \<noteq> []) \<and>
                 evs = concat (map (selfTest_poll (kRegSelfTest hdr)) vs) \<and>
                 selfTest_loop hdr tr i v st =
                   Exited (last (v # vs), snd (exit_state (selfTest_loop hdr tr i v st))) \<and>
                 (\<forall>u \<in> set (butlast vs). bit u (selfTest_inProgress hdr)) \<and>
                 (length vs < 10 - i \<longrightarrow> \<not> bit (last vs) (selfTest_inProgress hdr))))"
  using port
proof (induction hdr tr i v st rule: selfTest_loop.induct)
  case (1 hdr tr i v st)
  note port = \<open>i2c_port tr\<close>
  show ?case
  proof (cases "i < 10")
    case False
    then have "selfTest_loop hdr tr i v st = Exited (v, st)"
      by (subst selfTest_loop.simps) simp
    with False show ?thesis
      by simp
  next
    case True
    obtain err v' st1 where rb: "readRegisterByte tr (kRegSelfTest hdr) v (delayMs 5 st) = (err, v', st1)"
      by (metis prod_cases3)
    from readRegisterByte_events[OF port rb] obtain es where
      t1: "trace st1 = trace st @ DelayMs 5 # es" and
      ok: "list_all transferred es \<longrightarrow>
             err = kSTkErrOk \<and> es = [I2cWrite [kRegSelfTest hdr] True (Some 1), I2cRead 1 False (Some [v'])]"
      by (auto simp: delayMs_def)
    have poll: "DelayMs 5 # es = selfTest_poll (kRegSelfTest hdr) v'" if "list_all transferred es"
      using ok that by (simp add: selfTest_poll_def)
    show ?thesis
    proof (cases "err \<noteq> kSTkErrOk")
      case True
      have unfold: "selfTest_loop hdr tr i v st = Returned err (v', st1)"
        using \<open>i < 10\<close> rb True by (subst selfTest_loop.simps) simp
      have "trace (snd (exit_state (selfTest_loop hdr tr i v st))) = trace st @ (DelayMs 5 # es)"
        using t1 by (simp add: unfold)
      moreover have "\<not> list_all transferred (DelayMs 5 # es)"
        using ok True by auto
      ultimately show ?thesis
        by blast
    next
      case errok: False
      show ?thesis
      proof (cases "bit v' (selfTest_inProgress hdr)")
        case idle: False
        have unfold: "selfTest_loop hdr tr i v st = Exited (v', st1)"
          using \<open>i < 10\<close> rb errok idle by (subst selfTest_loop.simps) simp
        have tall: "trace (snd (exit_state (selfTest_loop hdr tr i v st))) = trace st @ (DelayMs 5 # es)"
          using t1 by (simp add: unfold)
        have "\<exists>vs. length vs \<le> 10 - i \<and> (i < 10 \<longrightarrow> vs \<noteq> []) \<and>
                 DelayMs 5 # es = concat (map (selfTest_poll (kRegSelfTest hdr)) vs) \<and>
                 selfTest_loop hdr tr i v st =
                   Exited (last (v # vs), snd (exit_state (selfTest_loop hdr tr i v st))) \<and>
                 (\<forall>u \<in> set (butlast vs). bit u (selfTest_inProgress hdr)) \<and>
                 (length vs < 10 - i \<longrightarrow> \<not> bit (last vs) (selfTest_inProgress hdr))"
          if all: "list_all transferred (DelayMs 5 # es)"
        proof -
          from all have a1: "list_all transferred es"
            by simp
          have c1: "length [v'] \<le> 10 - i"
            using \<open>i < 10\<close> by simp
          have c3: "DelayMs 5 # es = concat (map (selfTest_poll (kRegSelfTest hdr)) [v'])"
            using poll[OF a1] by simp
          from c1 c3 idle show ?thesis
            by (intro exI[of _ "[v']"]) (simp add: unfold)
        qed
        with tall show ?thesis
          by blast
      next
        case busy: True
        have nn: "\<not> \<not> bit v' (selfTest_inProgress hdr)"
          using busy by simp
        from "1.IH"[OF \<open>i < 10\<close> rb[symmetric] refl errok nn port] obtain evs where
          t2: "trace (snd (exit_state (selfTest_loop hdr tr (i + 1) v' st1))) = trace st1 @ evs" and
          ih: "list_all transferred evs \<longrightarrow>
              (\<exists>vs. length vs \<le> 10 - (i + 1) \<and> (i + 1 < 10 \<longrightarrow> vs \<noteq> []) \<and>
                 evs = concat (map (selfTest_poll (kRegSelfTest hdr)) vs) \<and>
                 selfTest_loop hdr tr (i + 1) v' st1 =
                   Exited (last (v' # vs), snd (exit_state (selfTest_loop hdr tr (i + 1) v' st1))) \<and>
                 (\<forall>u \<in> set (butlast vs). bit u (selfTest_inProgress hdr)) \<and>
                 (length vs < 10 - (i + 1) \<longrightarrow> \<not> bit (last vs) (selfTest_inProgress hdr)))"
          by auto
        have unfold: "selfTest_loop hdr tr i v st = selfTest_loop hdr tr (i + 1) v' st1"
          using \<open>i < 10\<close> rb errok busy by (subst selfTest_loop.simps) simp
        have tall: "trace (snd (exit_state (selfTest_loop hdr tr i v st))) = trace st @ (DelayMs 5 # es @ evs)"
          using t1 t2 by (simp add: unfold)
        have "\<exists>vs. length vs \<le> 10 - i \<and> (i < 10 \<longrightarrow> vs \<noteq> []) \<and>
                 DelayMs 5 # es @ evs = concat (map (selfTest_poll (kRegSelfTest hdr)) vs) \<and>
                 selfTest_loop hdr tr i v st =
                   Exited (last (v # vs), snd (exit_state (selfTest_loop hdr tr i v st))) \<and>
                 (\<forall>u \<in> set (butlast vs). bit u (selfTest_inProgress hdr)) \<and>
                 (length vs < 10 - i \<longrightarrow> \<not> bit (last vs) (selfTest_inProgress hdr))"
          if all: "list_all transferred (DelayMs 5 # es @ evs)"
        proof -
          from all have a1: "list_all transferred es" and a2: "list_all transferred evs"
            by simp_all
          from ih a2 obtain vs where
            len: "length vs \<le> 10 - (i + 1)" and ne: "i + 1 < 10 \<longrightarrow> vs \<noteq> []" and
            ev: "evs = concat (map (selfTest_poll (kRegSelfTest hdr)) vs)" and
            out: "selfTest_loop hdr tr (i + 1) v' st1 =
                   Exited (last (v' # vs), snd (exit_state (selfTest_loop hdr tr (i + 1) v' st1)))" and
            inprog: "\<forall>u \<in> set (butlast vs). bit u (selfTest_inProgress hdr)" and
            early: "length vs < 10 - (i + 1) \<longrightarrow> \<not> bit (last vs) (selfTest_inProgress hdr)"
            by blast
          have c1: "length (v' # vs) \<le> 10 - i"
            using len \<open>i < 10\<close> by simp
          have c3: "DelayMs 5 # es @ evs = concat (map (selfTest_poll (kRegSelfTest hdr)) (v' # vs))"
            using poll[OF a1] ev by simp
          have c4: "selfTest_loop hdr tr i v st =
                   Exited (last (v # v' # vs), snd (exit_state (selfTest_loop hdr tr i v st)))"
            using out by (simp add: unfold)
          have c5: "\<forall>u \<in> set (butlast (v' # vs)). bit u (selfTest_inProgress hdr)"
            using inprog busy by simp
          have c6: "length (v' # vs) < 10 - i \<longrightarrow> \<not> bit (last (v' # vs)) (selfTest_inProgress hdr)"
            using early ne by auto
          from c1 c3 c4 c5 c6 show ?thesis
            by (intro exI[of _ "v' # vs"]) simp
        qed
        with tall show ?thesis
          by blast
      qed
    qed
  qed
qed

text \<open>
  C8. In a run of \<open>selfTest\<close> in which every bus transfer completes, the record of the
  run is the write of the start bit followed by the polls, between one and ten of them,
  each a 5 ms delay and then a read of the self-test register. Every poll but the last
  read the in-progress flag as 1; if there were fewer than ten polls, the last one read it
  as 0. The result is OK exactly when the pass flag of the last byte read is 1, and FAIL
  otherwise.
\<close>

theorem selfTest_polls:
  assumes port: "i2c_port tr"
    and run: "selfTest hdr tr selfTest0 st = (err, st')"
    and evs: "trace st' = trace st @ evs"
    and all: "list_all transferred evs"
  shows "\<exists>vs. vs \<noteq> [] \<and> length vs \<le> 10 \<and>
           evs = I2cWrite [kRegSelfTest hdr, set_bit (selfTest_start hdr) selfTest0] False (Some 2) #
                   concat (map (selfTest_poll (kRegSelfTest hdr)) vs) \<and>
           (\<forall>u \<in> set (butlast vs). bit u (selfTest_inProgress hdr)) \<and>
           (length vs < 10 \<longrightarrow> \<not> bit (last vs) (selfTest_inProgress hdr)) \<and>
           (err = kSTkErrOk \<longleftrightarrow> bit (last vs) (selfTest_pass hdr)) \<and>
           (err = kSTkErrOk \<or> err = kSTkErrFail)"
proof -
  define v0 where "v0 = set_bit (selfTest_start hdr) selfTest0"
  obtain e1 st1 where w: "writeRegisterByte tr (kRegSelfTest hdr) v0 st = (e1, st1)"
    by (cases "writeRegisterByte tr (kRegSelfTest hdr) v0 st")
  from writeRegisterByte_events[OF port w] obtain r where
    wr: "trace st1 = trace st @ [I2cWrite [kRegSelfTest hdr, v0] False r] \<and>
         (e1 = kSTkErrOk \<longleftrightarrow> r = Some 2) \<and> (e1 = kSTkErrOk \<or> e1 = kSTkErrFail)" ..
  then have t1: "trace st1 = trace st @ [I2cWrite [kRegSelfTest hdr, v0] False r]"
    and r: "e1 = kSTkErrOk \<longleftrightarrow> r = Some 2"
    by simp_all
  have sel: "selfTest hdr tr selfTest0 st =
      (if e1 \<noteq> kSTkErrOk then (e1, st1)
       else case selfTest_loop hdr tr 0 v0 st1 of
              Returned err' (v, st2) \<Rightarrow> (err', st2)
            | Exited (v, st2) \<Rightarrow>
                (if bit v (selfTest_pass hdr) then kSTkErrOk else kSTkErrFail, st2))"
    unfolding selfTest_def Let_def v0_def[symmetric] w by simp
  show ?thesis
  proof (cases "e1 = kSTkErrOk")
    case False
    with run sel have "st' = st1"
      by simp
    with t1 evs have "evs = [I2cWrite [kRegSelfTest hdr, v0] False r]"
      by simp
    with all have "r = Some 2"
      by simp
    with r False show ?thesis
      by simp
  next
    case True
    define out where "out = selfTest_loop hdr tr 0 v0 st1"
    from selfTest_loop_events[OF port, of hdr 0 v0 st1] obtain es where
      both: "trace (snd (exit_state out)) = trace st1 @ es \<and>
        (list_all transferred es \<longrightarrow>
              (\<exists>vs. length vs \<le> 10 - 0 \<and> ((0::nat) < 10 \<longrightarrow> vs \<noteq> []) \<and>
                 es = concat (map (selfTest_poll (kRegSelfTest hdr)) vs) \<and>
                 out = Exited (last (v0 # vs), snd (exit_state out)) \<and>
                 (\<forall>u \<in> set (butlast vs). bit u (selfTest_inProgress hdr)) \<and>
                 (length vs < 10 - 0 \<longrightarrow> \<not> bit (last vs) (selfTest_inProgress hdr))))"
      unfolding out_def ..
    have st': "st' = snd (exit_state out)"
      using run True unfolding sel out_def[symmetric]
      by (cases out) (simp_all split: prod.splits)
    with t1 both evs have e: "evs = I2cWrite [kRegSelfTest hdr, v0] False r # es"
      by simp
    with all have alles: "list_all transferred es" and r2: "r = Some 2"
      by simp_all
    from both[THEN conjunct2, THEN mp, OF alles] obtain vs where
      conj: "length vs \<le> 10 - 0 \<and> ((0::nat) < 10 \<longrightarrow> vs \<noteq> []) \<and>
                 es = concat (map (selfTest_poll (kRegSelfTest hdr)) vs) \<and>
                 out = Exited (last (v0 # vs), snd (exit_state out)) \<and>
                 (\<forall>u \<in> set (butlast vs). bit u (selfTest_inProgress hdr)) \<and>
                 (length vs < 10 - 0 \<longrightarrow> \<not> bit (last vs) (selfTest_inProgress hdr))"
      ..
    then have len: "length vs \<le> 10" and ne: "vs \<noteq> []" and
      es: "es = concat (map (selfTest_poll (kRegSelfTest hdr)) vs)" and
      out: "out = Exited (last (v0 # vs), snd (exit_state out))" and
      inprog: "\<forall>u \<in> set (butlast vs). bit u (selfTest_inProgress hdr)" and
      early: "length vs < 10 \<longrightarrow> \<not> bit (last vs) (selfTest_inProgress hdr)"
      by (simp_all split: if_splits)
    have "(err, st') = (if bit (last vs) (selfTest_pass hdr) then kSTkErrOk else kSTkErrFail, snd (exit_state out))"
      using run True ne unfolding sel out_def[symmetric]
      by (subst (asm) out) simp
    then have err: "err = (if bit (last vs) (selfTest_pass hdr) then kSTkErrOk else kSTkErrFail)"
      by simp
    have c6: "err = kSTkErrOk \<longleftrightarrow> bit (last vs) (selfTest_pass hdr)"
      and c7: "err = kSTkErrOk \<or> err = kSTkErrFail"
      unfolding err by (simp_all add: kSTkErr_values)
    have c3: "evs = I2cWrite [kRegSelfTest hdr, set_bit (selfTest_start hdr) selfTest0] False (Some 2) #
                   concat (map (selfTest_poll (kRegSelfTest hdr)) vs)"
      unfolding e es r2 v0_def ..
    from ne len c3 inprog early c6 c7 show ?thesis
      by (intro exI[of _ vs] conjI)
  qed
qed

theorem selfTest_polls_witness:
  "selfTest demo_header scripted 0 (bus0 (replicate 10 (Some [2]))) =
     (kSTkErrFail, \<lparr>dev = [], trace = [I2cWrite [0x0F, 1] False (Some 2),
          DelayMs 5, I2cWrite [0x0F] True (Some 1), I2cRead 1 False (Some [2]),
          DelayMs 5, I2cWrite [0x0F] True (Some 1), I2cRead 1 False (Some [2]),
          DelayMs 5, I2cWrite [0x0F] True (Some 1), I2cRead 1 False (Some [2]),
          DelayMs 5, I2cWrite [0x0F] True (Some 1), I2cRead 1 False (Some [2]),
          DelayMs 5, I2cWrite [0x0F] True (Some 1), I2cRead 1 False (Some [2]),
          DelayMs 5, I2cWrite [0x0F] True (Some 1), I2cRead 1 False (Some [2]),
          DelayMs 5, I2cWrite [0x0F] True (Some 1), I2cRead 1 False (Some [2]),
          DelayMs 5, I2cWrite [0x0F] True (Some 1), I2cRead 1 False (Some [2]),
          DelayMs 5, I2cWrite [0x0F] True (Some 1), I2cRead 1 False (Some [2]),
          DelayMs 5, I2cWrite [0x0F] True (Some 1), I2cRead 1 False (Some [2])]\<rparr>)
   \<and> (\<exists>vs. vs \<noteq> [] \<and> length vs \<le> 10 \<and>
          [I2cWrite [0x0F, 1] False (Some 2),
          DelayMs 5, I2cWrite [0x0F] True (Some 1), I2cRead 1 False (Some [2]),
          DelayMs 5, I2cWrite [0x0F] True (Some 1), I2cRead 1 False (Some [2]),
          DelayMs 5, I2cWrite [0x0F] True (Some 1), I2cRead 1 False (Some [2]),
          DelayMs 5, I2cWrite [0x0F] True (Some 1), I2cRead 1 False (Some [2]),
          DelayMs 5, I2cWrite [0x0F] True (Some 1), I2cRead 1 False (Some [2]),
          DelayMs 5, I2cWrite [0x0F] True (Some 1), I2cRead 1 False (Some [2]),
          DelayMs 5, I2cWrite [0x0F] True (Some 1), I2cRead 1 False (Some [2]),
          DelayMs 5, I2cWrite [0x0F] True (Some 1), I2cRead 1 False (Some [2]),
          DelayMs 5, I2cWrite [0x0F] True (Some 1), I2cRead 1 False (Some [2]),
          DelayMs 5, I2cWrite [0x0F] True (Some 1), I2cRead 1 False (Some [2])] =
            I2cWrite [kRegSelfTest demo_header, set_bit (selfTest_start demo_header) 0] False (Some 2) #
              concat (map (selfTest_poll (kRegSelfTest demo_header)) vs) \<and>
          (\<forall>u \<in> set (butlast vs). bit u (selfTest_inProgress demo_header)) \<and>
          (length vs < 10 \<longrightarrow> \<not> bit (last vs) (selfTest_inProgress demo_header)) \<and>
          (kSTkErrFail = kSTkErrOk \<longleftrightarrow> bit (last vs) (selfTest_pass demo_header)) \<and>
          (kSTkErrFail = kSTkErrOk \<or> kSTkErrFail = kSTkErrFail))"
proof -
  have run: "selfTest demo_header scripted 0 (bus0 (replicate 10 (Some [2]))) =
     (kSTkErrFail, \<lparr>dev = [], trace = [I2cWrite [0x0F, 1] False (Some 2),
          DelayMs 5, I2cWrite [0x0F] True (Some 1), I2cRead 1 False (Some [2]),
          DelayMs 5, I2cWrite [0x0F] True (Some 1), I2cRead 1 False (Some [2]),
          DelayMs 5, I2cWrite [0x0F] True (Some 1), I2cRead 1 False (Some [2]),
          DelayMs 5, I2cWrite [0x0F] True (Some 1), I2cRead 1 False (Some [2]),
          DelayMs 5, I2cWrite [0x0F] True (Some 1), I2cRead 1 False (Some [2]),
          DelayMs 5, I2cWrite [0x0F] True (Some 1), I2cRead 1 False (Some [2]),
          DelayMs 5, I2cWrite [0x0F] True (Some 1), I2cRead 1 False (Some [2]),
          DelayMs 5, I2cWrite [0x0F] True (Some 1), I2cRead 1 False (Some [2]),
          DelayMs 5, I2cWrite [0x0F] True (Some 1), I2cRead 1 False (Some [2]),
          DelayMs 5, I2cWrite [0x0F] True (Some 1), I2cRead 1 False (Some [2])]\<rparr>)"
    by code_simp
  have port: "i2c_port scripted"
    by (simp add: scripted_fields)
  have evs: "trace \<lparr>dev = [], trace = [I2cWrite [0x0F, 1] False (Some 2),
          DelayMs 5, I2cWrite [0x0F] True (Some 1), I2cRead 1 False (Some [2]),
          DelayMs 5, I2cWrite [0x0F] True (Some 1), I2cRead 1 False (Some [2]),
          DelayMs 5, I2cWrite [0x0F] True (Some 1), I2cRead 1 False (Some [2]),
          DelayMs 5, I2cWrite [0x0F] True (Some 1), I2cRead 1 False (Some [2]),
          DelayMs 5, I2cWrite [0x0F] True (Some 1), I2cRead 1 False (Some [2]),
          DelayMs 5, I2cWrite [0x0F] True (Some 1), I2cRead 1 False (Some [2]),
          DelayMs 5, I2cWrite [0x0F] True (Some 1), I2cRead 1 False (Some [2]),
          DelayMs 5, I2cWrite [0x0F] True (Some 1), I2cRead 1 False (Some [2]),
          DelayMs 5, I2cWrite [0x0F] True (Some 1), I2cRead 1 False (Some [2]),
          DelayMs 5, I2cWrite [0x0F] True (Some 1), I2cRead 1 False (Some [2])]\<rparr> =
      trace (bus0 (replicate 10 (Some [2]))) @ [I2cWrite [0x0F, 1] False (Some 2),
          DelayMs 5, I2cWrite [0x0F] True (Some 1), I2cRead 1 False (Some [2]),
          DelayMs 5, I2cWrite [0x0F] True (Some 1), I2cRead 1 False (Some [2]),
          DelayMs 5, I2cWrite [0x0F] True (Some 1), I2cRead 1 False (Some [2]),
          DelayMs 5, I2cWrite [0x0F] True (Some 1), I2cRead 1 False (Some [2]),
          DelayMs 5, I2cWrite [0x0F] True (Some 1), I2cRead 1 False (Some [2]),
          DelayMs 5, I2cWrite [0x0F] True (Some 1), I2cRead 1 False (Some [2]),
          DelayMs 5, I2cWrite [0x0F] True (Some 1), I2cRead 1 False (Some [2]),
          DelayMs 5, I2cWrite [0x0F] True (Some 1), I2cRead 1 False (Some [2]),
          DelayMs 5, I2cWrite [0x0F] True (Some 1), I2cRead 1 False (Some [2]),
          DelayMs 5, I2cWrite [0x0F] True (Some 1), I2cRead 1 False (Some [2])]"
    by (simp add: bus0_def)
  have all: "list_all transferred [I2cWrite [0x0F, 1] False (Some 2),
          DelayMs 5, I2cWrite [0x0F] True (Some 1), I2cRead 1 False (Some [2]),
          DelayMs 5, I2cWrite [0x0F] True (Some 1), I2cRead 1 False (Some [2]),
          DelayMs 5, I2cWrite [0x0F] True (Some 1), I2cRead 1 False (Some [2]),
          DelayMs 5, I2cWrite [0x0F] True (Some 1), I2cRead 1 False (Some [2]),
          DelayMs 5, I2cWrite [0x0F] True (Some 1), I2cRead 1 False (Some [2]),
          DelayMs 5, I2cWrite [0x0F] True (Some 1), I2cRead 1 False (Some [2]),
          DelayMs 5, I2cWrite [0x0F] True (Some 1), I2cRead 1 False (Some [2]),
          DelayMs 5, I2cWrite [0x0F] True (Some 1), I2cRead 1 False (Some [2]),
          DelayMs 5, I2cWrite [0x0F] True (Some 1), I2cRead 1 False (Some [2]),
          DelayMs 5, I2cWrite [0x0F] True (Some 1), I2cRead 1 False (Some [2])]"
    by simp
  from run selfTest_polls[OF port run evs all] show ?thesis ..
qed

section \<open>The calibration loop\<close>

lemma calibrateImu_loop_events:
  assumes port: "i2c_port tr"
  shows "\<exists>evs. trace (snd (calibrateImu_loop hdr tr c0 n st)) = trace st @ evs \<and>
           (list_all transferred evs \<longrightarrow>
              (\<exists>vs. length vs \<le> unat n \<and>
                 evs = concat (map (calibrateImu_poll (kRegImuCalib hdr)) vs) \<and>
                 0 \<notin> set (butlast vs) \<and>
                 (fst (calibrateImu_loop hdr tr c0 n st) = kSTkErrOk \<and> vs \<noteq> [] \<and> last vs = 0 \<or>
                  fst (calibrateImu_loop hdr tr c0 n st) = kSTkErrFail \<and> length vs = unat n \<and>
                    0 \<notin> set vs)))"
  using port
proof (induction hdr tr c0 n st rule: calibrateImu_loop.induct)
  case (1 hdr tr c0 n st)
  note port = \<open>i2c_port tr\<close>
  show ?case
  proof (cases "0 < n")
    case False
    then have "calibrateImu_loop hdr tr c0 n st = (kSTkErrFail, st)"
      by (subst calibrateImu_loop.simps) simp
    moreover from False have "unat n = 0"
      by (simp add: word_gt_0)
    ultimately show ?thesis
      by simp
  next
    case True
    then have npos: "0 < unat n"
      by (simp add: word_gt_0 unat_gt_0)
    obtain err v st1 where rb: "readRegisterByte tr (kRegImuCalib hdr) c0 st = (err, v, st1)"
      by (metis prod_cases3)
    from readRegisterByte_events[OF port rb] obtain es where
      rbe: "trace st1 = trace st @ es \<and>
          (list_all transferred es \<longrightarrow>
             err = kSTkErrOk \<and> es = [I2cWrite [kRegImuCalib hdr] True (Some 1), I2cRead 1 False (Some [v])])" ..
    then have t1: "trace st1 = trace st @ es"
      and ok: "list_all transferred es \<Longrightarrow>
             err = kSTkErrOk \<and> es = [I2cWrite [kRegImuCalib hdr] True (Some 1), I2cRead 1 False (Some [v])]"
      by simp_all
    show ?thesis
    proof (cases "err \<noteq> kSTkErrOk")
      case True
      have unfold: "calibrateImu_loop hdr tr c0 n st = (err, st1)"
        using \<open>0 < n\<close> rb True by (subst calibrateImu_loop.simps) simp
      have "trace (snd (calibrateImu_loop hdr tr c0 n st)) = trace st @ es"
        using t1 by (simp add: unfold)
      moreover have "\<not> list_all transferred es"
        using ok True by blast
      ultimately show ?thesis
        by blast
    next
      case errok: False
      show ?thesis
      proof (cases "v = 0")
        case zero: True
        have unfold: "calibrateImu_loop hdr tr c0 n st = (kSTkErrOk, st1)"
          using \<open>0 < n\<close> rb errok zero by (subst calibrateImu_loop.simps) simp
        have tall: "trace (snd (calibrateImu_loop hdr tr c0 n st)) = trace st @ es"
          using t1 by (simp add: unfold)
        have "\<exists>vs. length vs \<le> unat n \<and>
                 es = concat (map (calibrateImu_poll (kRegImuCalib hdr)) vs) \<and>
                 0 \<notin> set (butlast vs) \<and>
                 (fst (calibrateImu_loop hdr tr c0 n st) = kSTkErrOk \<and> vs \<noteq> [] \<and> last vs = 0 \<or>
                  fst (calibrateImu_loop hdr tr c0 n st) = kSTkErrFail \<and> length vs = unat n \<and>
                    0 \<notin> set vs)"
          if all: "list_all transferred es"
        proof -
          have "es = concat (map (calibrateImu_poll (kRegImuCalib hdr)) [v])"
            using ok[OF all] zero by (simp add: calibrateImu_poll_def)
          with npos zero show ?thesis
            by (intro exI[of _ "[v]"]) (simp add: unfold)
        qed
        with tall show ?thesis
          by blast
      next
        case nonzero: False
        have e0: "\<not> err \<noteq> kSTkErrOk"
          using errok by simp
        from "1.IH"[OF \<open>0 < n\<close> rb[symmetric] refl e0 nonzero port] obtain evs where
          ih: "trace (snd (calibrateImu_loop hdr tr c0 (n - 1) (delayMs 3 st1))) =
                 trace (delayMs 3 st1) @ evs \<and>
           (list_all transferred evs \<longrightarrow>
              (\<exists>vs. length vs \<le> unat (n - 1) \<and>
                 evs = concat (map (calibrateImu_poll (kRegImuCalib hdr)) vs) \<and>
                 0 \<notin> set (butlast vs) \<and>
                 (fst (calibrateImu_loop hdr tr c0 (n - 1) (delayMs 3 st1)) = kSTkErrOk \<and> vs \<noteq> [] \<and>
                    last vs = 0 \<or>
                  fst (calibrateImu_loop hdr tr c0 (n - 1) (delayMs 3 st1)) = kSTkErrFail \<and>
                    length vs = unat (n - 1) \<and> 0 \<notin> set vs)))" ..
        have unfold: "calibrateImu_loop hdr tr c0 n st =
            calibrateImu_loop hdr tr c0 (n - 1) (delayMs 3 st1)"
          using \<open>0 < n\<close> rb errok nonzero by (subst calibrateImu_loop.simps) simp
        have un: "unat (n - 1) = unat n - 1"
          using \<open>0 < n\<close> by (simp add: unat_minus_one word_gt_0)
        have tall: "trace (snd (calibrateImu_loop hdr tr c0 n st)) = trace st @ (es @ DelayMs 3 # evs)"
          using ih t1 by (simp add: unfold delayMs_def)
        have "\<exists>vs. length vs \<le> unat n \<and>
                 es @ DelayMs 3 # evs = concat (map (calibrateImu_poll (kRegImuCalib hdr)) vs) \<and>
                 0 \<notin> set (butlast vs) \<and>
                 (fst (calibrateImu_loop hdr tr c0 n st) = kSTkErrOk \<and> vs \<noteq> [] \<and> last vs = 0 \<or>
                  fst (calibrateImu_loop hdr tr c0 n st) = kSTkErrFail \<and> length vs = unat n \<and>
                    0 \<notin> set vs)"
          if all: "list_all transferred (es @ DelayMs 3 # evs)"
        proof -
          from all have a1: "list_all transferred es" and a2: "list_all transferred evs"
            by simp_all
          from ih[THEN conjunct2, THEN mp, OF a2] obtain vs where
            conj: "length vs \<le> unat (n - 1) \<and>
                 evs = concat (map (calibrateImu_poll (kRegImuCalib hdr)) vs) \<and>
                 0 \<notin> set (butlast vs) \<and>
                 (fst (calibrateImu_loop hdr tr c0 (n - 1) (delayMs 3 st1)) = kSTkErrOk \<and> vs \<noteq> [] \<and>
                    last vs = 0 \<or>
                  fst (calibrateImu_loop hdr tr c0 (n - 1) (delayMs 3 st1)) = kSTkErrFail \<and>
                    length vs = unat (n - 1) \<and> 0 \<notin> set vs)" ..
          have c1: "length (v # vs) \<le> unat n"
            using conj un npos by auto
          have c2: "es @ DelayMs 3 # evs = concat (map (calibrateImu_poll (kRegImuCalib hdr)) (v # vs))"
            using ok[OF a1] conj nonzero by (simp add: calibrateImu_poll_def)
          have c3: "0 \<notin> set (butlast (v # vs))"
            using conj nonzero by simp
          have c4: "fst (calibrateImu_loop hdr tr c0 n st) = kSTkErrOk \<and> v # vs \<noteq> [] \<and> last (v # vs) = 0 \<or>
                  fst (calibrateImu_loop hdr tr c0 n st) = kSTkErrFail \<and> length (v # vs) = unat n \<and>
                    0 \<notin> set (v # vs)"
            using conj nonzero un npos unfolding unfold by auto
          from c1 c2 c3 c4 show ?thesis
            by (intro exI[of _ "v # vs"] conjI)
        qed
        with tall show ?thesis
          by blast
      qed
    qed
  qed
qed

text \<open>
  C7. In a run of \<open>calibrateImu\<close> in which every bus transfer completes, the record
  starts with the write of \<open>numSamples\<close> to the calibration register and a 3 ms delay.
  When \<open>waitUntilDone\<close> is false nothing follows and the result is OK, whatever the
  device would have answered. When it is true, at most \<open>numSamples\<close> polls follow; either
  the last poll read zero, no earlier one did, and the result is OK, or all
  \<open>numSamples\<close> polls read a nonzero value and the result is FAIL.
\<close>

theorem calibrateImu_polls:
  assumes port: "i2c_port tr"
    and run: "calibrateImu hdr tr c0 numSamples waitUntilDone st = (err, st')"
    and evs: "trace st' = trace st @ evs"
    and all: "list_all transferred evs"
  shows "if waitUntilDone
         then \<exists>vs. length vs \<le> unat numSamples \<and>
                evs = I2cWrite [kRegImuCalib hdr, numSamples] False (Some 2) # DelayMs 3 #
                        concat (map (calibrateImu_poll (kRegImuCalib hdr)) vs) \<and>
                0 \<notin> set (butlast vs) \<and>
                (err = kSTkErrOk \<and> vs \<noteq> [] \<and> last vs = 0 \<or>
                 err = kSTkErrFail \<and> length vs = unat numSamples \<and> 0 \<notin> set vs)
         else err = kSTkErrOk \<and>
              evs = [I2cWrite [kRegImuCalib hdr, numSamples] False (Some 2), DelayMs 3]"
proof -
  obtain e1 st1 where w: "writeRegisterByte tr (kRegImuCalib hdr) numSamples st = (e1, st1)"
    by (cases "writeRegisterByte tr (kRegImuCalib hdr) numSamples st")
  from writeRegisterByte_events[OF port w] obtain r where
    wr: "trace st1 = trace st @ [I2cWrite [kRegImuCalib hdr, numSamples] False r] \<and>
         (e1 = kSTkErrOk \<longleftrightarrow> r = Some 2) \<and> (e1 = kSTkErrOk \<or> e1 = kSTkErrFail)" ..
  then have t1: "trace st1 = trace st @ [I2cWrite [kRegImuCalib hdr, numSamples] False r]"
    and r: "e1 = kSTkErrOk \<longleftrightarrow> r = Some 2"
    by simp_all
  define st2 where "st2 = delayMs 3 st1"
  have cal: "calibrateImu hdr tr c0 numSamples waitUntilDone st =
      (if e1 \<noteq> kSTkErrOk then (e1, st1)
       else if \<not> waitUntilDone then (kSTkErrOk, st2)
       else calibrateImu_loop hdr tr c0 numSamples st2)"
    unfolding calibrateImu_def w st2_def by (simp add: Let_def)
  have t2: "trace st2 = trace st @ [I2cWrite [kRegImuCalib hdr, numSamples] False r, DelayMs 3]"
    using t1 by (simp add: st2_def delayMs_def)
  show ?thesis
  proof (cases "e1 = kSTkErrOk")
    case False
    with run cal have "st' = st1"
      by simp
    with t1 evs have "evs = [I2cWrite [kRegImuCalib hdr, numSamples] False r]"
      by simp
    with all have "r = Some 2"
      by simp
    with r False show ?thesis
      by simp
  next
    case True
    with r have r2: "r = Some 2"
      by simp
    show ?thesis
    proof (cases waitUntilDone)
      case False
      with run cal True have "err = kSTkErrOk" and "st' = st2"
        by simp_all
      with t2 evs r2 False show ?thesis
        by simp
    next
      case wait: True
      from run cal True wait have res: "calibrateImu_loop hdr tr c0 numSamples st2 = (err, st')"
        by simp
      from calibrateImu_loop_events[OF port, of hdr c0 numSamples st2] obtain es where
        both: "trace (snd (calibrateImu_loop hdr tr c0 numSamples st2)) = trace st2 @ es \<and>
           (list_all transferred es \<longrightarrow>
              (\<exists>vs. length vs \<le> unat numSamples \<and>
                 es = concat (map (calibrateImu_poll (kRegImuCalib hdr)) vs) \<and>
                 0 \<notin> set (butlast vs) \<and>
                 (fst (calibrateImu_loop hdr tr c0 numSamples st2) = kSTkErrOk \<and> vs \<noteq> [] \<and>
                    last vs = 0 \<or>
                  fst (calibrateImu_loop hdr tr c0 numSamples st2) = kSTkErrFail \<and>
                    length vs = unat numSamples \<and> 0 \<notin> set vs)))" ..
      from both t2 evs have e: "evs = I2cWrite [kRegImuCalib hdr, numSamples] False r # DelayMs 3 # es"
        by (simp add: res)
      with all have alles: "list_all transferred es"
        by simp
      from both[THEN conjunct2, THEN mp, OF alles] obtain vs where
        conj: "length vs \<le> unat numSamples \<and>
                 es = concat (map (calibrateImu_poll (kRegImuCalib hdr)) vs) \<and>
                 0 \<notin> set (butlast vs) \<and>
                 (fst (calibrateImu_loop hdr tr c0 numSamples st2) = kSTkErrOk \<and> vs \<noteq> [] \<and>
                    last vs = 0 \<or>
                  fst (calibrateImu_loop hdr tr c0 numSamples st2) = kSTkErrFail \<and>
                    length vs = unat numSamples \<and> 0 \<notin> set vs)" ..
      then have "length vs \<le> unat numSamples \<and>
                evs = I2cWrite [kRegImuCalib hdr, numSamples] False (Some 2) # DelayMs 3 #
                        concat (map (calibrateImu_poll (kRegImuCalib hdr)) vs) \<and>
                0 \<notin> set (butlast vs) \<and>
                (err = kSTkErrOk \<and> vs \<noteq> [] \<and> last vs = 0 \<or>
                 err = kSTkErrFail \<and> length vs = unat numSamples \<and> 0 \<notin> set vs)"
        unfolding res e r2 by simp
      with wait show ?thesis
        by auto
    qed
  qed
qed

theorem calibrateImu_polls_witness:
  "calibrateImu demo_header scripted 0 5 True (bus0 [Some [3], Some [2], Some [1], Some [0]]) =
     (kSTkErrOk,
      \<lparr>dev = [],
       trace = [I2cWrite [0x06, 5] False (Some 2), DelayMs 3,
                I2cWrite [0x06] True (Some 1), I2cRead 1 False (Some [3]), DelayMs 3,
                I2cWrite [0x06] True (Some 1), I2cRead 1 False (Some [2]), DelayMs 3,
                I2cWrite [0x06] True (Some 1), I2cRead 1 False (Some [1]), DelayMs 3,
                I2cWrite [0x06] True (Some 1), I2cRead 1 False (Some [0])]\<rparr>)
   \<and> (\<exists>vs. length vs \<le> 5 \<and>
          [I2cWrite [0x06, 5] False (Some 2), DelayMs 3,
                I2cWrite [0x06] True (Some 1), I2cRead 1 False (Some [3]), DelayMs 3,
                I2cWrite [0x06] True (Some 1), I2cRead 1 False (Some [2]), DelayMs 3,
                I2cWrite [0x06] True (Some 1), I2cRead 1 False (Some [1]), DelayMs 3,
                I2cWrite [0x06] True (Some 1), I2cRead 1 False (Some [0])] =
            I2cWrite [0x06, 5] False (Some 2) # DelayMs 3 #
              concat (map (calibrateImu_poll 0x06) vs) \<and>
          0 \<notin> set (butlast vs) \<and> vs \<noteq> [] \<and> last vs = 0)"
proof -
  have run: "calibrateImu demo_header scripted 0 5 True (bus0 [Some [3], Some [2], Some [1], Some [0]]) =
     (kSTkErrOk,
      \<lparr>dev = [],
       trace = [I2cWrite [0x06, 5] False (Some 2), DelayMs 3,
                I2cWrite [0x06] True (Some 1), I2cRead 1 False (Some [3]), DelayMs 3,
                I2cWrite [0x06] True (Some 1), I2cRead 1 False (Some [2]), DelayMs 3,
                I2cWrite [0x06] True (Some 1), I2cRead 1 False (Some [1]), DelayMs 3,
                I2cWrite [0x06] True (Some 1), I2cRead 1 False (Some [0])]\<rparr>)"
    by code_simp
  have port: "i2c_port scripted"
    by (simp add: scripted_fields)
  have reg: "kRegImuCalib demo_header = 0x06"
    by (simp add: demo_header_def)
  from calibrateImu_polls[OF port run, of "[I2cWrite [0x06, 5] False (Some 2), DelayMs 3,
                I2cWrite [0x06] True (Some 1), I2cRead 1 False (Some [3]), DelayMs 3,
                I2cWrite [0x06] True (Some 1), I2cRead 1 False (Some [2]), DelayMs 3,
                I2cWrite [0x06] True (Some 1), I2cRead 1 False (Some [1]), DelayMs 3,
                I2cWrite [0x06] True (Some 1), I2cRead 1 False (Some [0])]"]
  show ?thesis
    unfolding run reg by (simp add: bus0_def kSTkErr_values)
qed

section \<open>The chunked region read\<close>

lemma region_exit_simps [simp]:
  "region_exit (Returned e a) = (e = kSTkErrFail)"
  "region_exit (Exited (n, stored, st)) = (n = 0)"
  by (simp_all add: region_exit_def)

lemma region_loop_exit_zero:
  assumes "region_loop tr devReg fi n stored st = Some out"
  shows "region_exit out"
  by (rule region_loop.raw_induct[where P = "\<lambda>tr devReg fi n stored st out. region_exit out", OF _ assms])
     (auto split: if_splits prod.splits simp: Let_def word_gt_0)

lemma fifo_empty_no_result:
  assumes "region_loop tr devReg fi n stored st = Some out"
  shows "\<not> stalled tr n st"
proof (rule region_loop.raw_induct[where P = "\<lambda>tr devReg fi n stored st out. \<not> stalled tr n st", OF _ assms], goal_cases)
  case (1 rl tr devReg fi n stored st out)
  show ?case
  proof
    assume a: "stalled tr n st"
    then have tr: "tr = fifo" and d: "dev st = 0" and n: "n \<noteq> 0"
      by (simp_all add: stalled_def)
    from 1(2) tr d n have "\<exists>st2. rl fifo devReg False n stored st2 = Some out \<and> dev st2 = 0"
      by (cases fi)
        (auto simp: Let_def word_gt_0 fifo_fields write_blocking_def read_blocking_def
          PICO_ERROR_GENERIC_def)
    then obtain st2 where r: "rl fifo devReg False n stored st2 = Some out" and d2: "dev st2 = 0"
      by blast
    from d2 n have "stalled fifo n st2"
      by (simp add: stalled_def)
    with 1(1)[OF r] show False
      by simp
  qed
qed

lemma fifo_empty_diverges: "n \<noteq> 0 \<Longrightarrow> dev st = 0 \<Longrightarrow> region_loop fifo devReg fi n stored st = None"
  using fifo_empty_no_result[of fifo devReg fi n stored st] by (cases "region_loop fifo devReg fi n stored st") (auto simp: stalled_def)

lemma read_requests_append:
  "read_requests (xs @ ys) = read_requests xs @ read_requests ys"
  by (induction xs rule: read_requests.induct) simp_all

lemma chunk_requests_0: "chunk_requests 0 = []"
  by (simp add: chunk_requests_def)

lemma chunk_requests_small: "0 < n \<Longrightarrow> n \<le> 32 \<Longrightarrow> chunk_requests n = [(n, False)]"
proof -
  assume "0 < n" "n \<le> 32"
  then have "(n + 31) div 32 = 1"
    by simp
  then show ?thesis
    using \<open>n \<le> 32\<close> by (simp add: chunk_requests_def)
qed

lemma chunk_requests_large:
  assumes "32 < n"
  shows "chunk_requests n = (32, True) # chunk_requests (n - 32)"
proof -
  define k where "k = (n - 32 + 31) div 32"
  from assms have "n + 31 = (n - 32 + 31) + 32"
    by simp
  then have "(n + 31) div 32 = ((n - 32 + 31) + 32) div 32"
    by (rule arg_cong)
  then have k: "(n + 31) div 32 = Suc k"
    unfolding k_def by simp
  from assms have k0: "0 < k"
    unfolding k_def by (simp add: div_greater_zero_iff)
  have step: "(min 32 (n - 32 * Suc i), Suc i + 1 < Suc k) = (min 32 (n - 32 - 32 * i), i + 1 < k)" for i
    by simp
  have "chunk_requests n = map (\<lambda>i. (min 32 (n - 32 * i), i + 1 < Suc k)) [0..<Suc k]"
    by (simp only: chunk_requests_def k)
  also have "\<dots> = (min 32 (n - 32 * 0), 0 + 1 < Suc k) #
      map (\<lambda>i. (min 32 (n - 32 * Suc i), Suc i + 1 < Suc k)) [0..<k]"
    by (rule map_upt_Suc)
  also have "\<dots> = (32, True) # map (\<lambda>i. (min 32 (n - 32 - 32 * i), i + 1 < k)) [0..<k]"
    using assms k0 by (simp only: step) simp
  also have "\<dots> = (32, True) # chunk_requests (n - 32)"
    by (simp only: chunk_requests_def k_def)
  finally show ?thesis .
qed

lemma nChunk_unat:
  fixes n :: size_t
  defines "c \<equiv> (if kDefaultBufferChunk < n then ucast kDefaultBufferChunk else ucast n) :: u8"
  shows "unat c = min 32 (unat n)" and "(ucast c < n) = (32 < unat n)"
proof -
  have lt: "(kDefaultBufferChunk < n) = (32 < unat n)"
    by (simp add: kDefaultBufferChunk_def word_less_nat_alt)
  have small: "unat (ucast n :: u8) = unat n" if "unat n \<le> 32"
    using that by (simp add: unsigned_ucast_eq take_bit_nat_eq_self)
  show u: "unat c = min 32 (unat n)"
  proof (cases "32 < unat n")
    case True
    then show ?thesis
      unfolding c_def lt by (simp add: kDefaultBufferChunk_def)
  next
    case False
    then show ?thesis
      unfolding c_def lt by (simp add: small)
  qed
  have "unat c < 2 ^ 32"
    using u by simp
  then have "unat (ucast c :: size_t) = unat c"
    by (simp add: unsigned_ucast_eq take_bit_nat_eq_self)
  then show "(ucast c < n) = (32 < unat n)"
    using u by (simp add: word_less_nat_alt min_def)
qed

lemma delivers_in_fullD:
  assumes "delivers_in_full tr" and "i2c_read_blocking tr s a len ns = (Some bs, d)"
  shows "length bs = len"
proof -
  from assms(1) have "case fst (i2c_read_blocking tr s a len ns) of None \<Rightarrow> True | Some bs \<Rightarrow> length bs = len"
    unfolding delivers_in_full_def by blast
  with assms(2) show ?thesis
    by simp
qed

lemma region_loop_in_full:
  assumes full: "delivers_in_full tr"
  shows "\<exists>out evs. region_loop tr devReg fi n stored st = Some out \<and>
           trace (snd (snd (exit_state out))) = trace st @ evs \<and>
           (\<forall>a. out = Exited a \<longrightarrow> read_requests evs = chunk_requests (unat n))"
proof (induction "unat n" arbitrary: n fi stored st rule: less_induct)
  case less
  show ?case
  proof (cases "n = 0")
    case True
    then show ?thesis
      by (subst region_loop.simps) (simp add: chunk_requests_0)
  next
    case False
    define c :: u8 where
      "c = (if kDefaultBufferChunk < n then ucast kDefaultBufferChunk else ucast n)"
    have uc: "unat c = min 32 (unat n)" and flag: "(ucast c < n) = (32 < unat n)"
      unfolding c_def by (rule nChunk_unat)+
    from False have npos: "0 < unat n"
      by (simp add: unat_gt_0)
    obtain result st1 where w: "(if fi then write_blocking tr devReg True st else (0, st)) = (result, st1)"
      by fastforce
    then obtain ws where t1: "trace st1 = trace st @ ws" and rw: "read_requests ws = []"
      by (cases fi) (auto simp: write_blocking_def split: prod.splits)
    show ?thesis
    proof (cases "result < 0")
      case True
      with False w t1 show ?thesis
        by (subst region_loop.simps) (simp add: word_gt_0)
    next
      case nonneg: False
      obtain r d where rd: "i2c_read_blocking tr (dev st1) kDefaultAddress (unat c) (ucast c < n) = (r, d)"
        by fastforce
      define st2 where "st2 = \<lparr>dev = d, trace = trace st1 @ [I2cRead (unat c) (ucast c < n) r]\<rparr>"
      show ?thesis
      proof (cases r)
        case None
        with False w nonneg rd t1 show ?thesis
          by (subst region_loop.simps)
            (simp add: word_gt_0 c_def[symmetric] read_blocking_def PICO_ERROR_GENERIC_def Let_def)
      next
        case (Some bs)
        with full rd have len: "length bs = unat c"
          by (simp add: delivers_in_fullD)
        define n' where "n' = n - word_of_int (int (length bs))"
        have le: "(word_of_nat (unat c) :: size_t) \<le> n"
          using uc by (simp add: word_le_nat_alt unat_of_nat take_bit_nat_eq_self flip: take_bit_eq_mod)
        have un': "unat n' = unat n - min 32 (unat n)"
          unfolding n'_def len using le uc
          by (simp add: unat_sub unat_of_nat)
        with npos have dec: "unat n' < unat n"
          by simp
        from less[OF dec, of False "stored @ bs" st2]
        obtain out evs where
          run: "region_loop tr devReg False n' (stored @ bs) st2 = Some out" and
          tr2: "trace (snd (snd (exit_state out))) = trace st2 @ evs" and
          rq: "\<forall>a. out = Exited a \<longrightarrow> read_requests evs = chunk_requests (unat n')"
          by blast
        have here: "region_loop tr devReg fi n stored st = Some out"
          using False w nonneg rd Some run
          by (subst region_loop.simps)
            (simp add: word_gt_0 c_def[symmetric] read_blocking_def Let_def n'_def st2_def)
        have tr_all: "trace (snd (snd (exit_state out))) = trace st @ (ws @ I2cRead (unat c) (ucast c < n) r # evs)"
          using tr2 t1 by (simp add: st2_def)
        have "read_requests (ws @ I2cRead (unat c) (ucast c < n) r # evs) = chunk_requests (unat n)"
          if "out = Exited a" for a
        proof -
          from rq that have "read_requests evs = chunk_requests (unat n')"
            by blast
          then have "read_requests (ws @ I2cRead (unat c) (ucast c < n) r # evs) =
              (min 32 (unat n), 32 < unat n) # chunk_requests (unat n - min 32 (unat n))"
            by (simp add: read_requests_append rw uc flag un')
          also have "\<dots> = chunk_requests (unat n)"
          proof (cases "32 < unat n")
            case True
            then show ?thesis
              by (simp add: chunk_requests_large)
          next
            case False
            with npos show ?thesis
              by (simp add: chunk_requests_small chunk_requests_0)
          qed
          finally show ?thesis .
        qed
        with here tr_all show ?thesis
          by blast
      qed
    qed
  qed
qed

lemma makes_progressD:
  assumes "makes_progress tr" and "i2c_read_blocking tr s a len ns = (Some bs, d)" and "0 < len"
  shows "0 < length bs \<and> length bs \<le> len"
proof -
  from assms(1) have "case fst (i2c_read_blocking tr s a len ns) of None \<Rightarrow> True
      | Some bs \<Rightarrow> len = 0 \<or> (0 < length bs \<and> length bs \<le> len)"
    unfolding makes_progress_def by blast
  with assms(2,3) show ?thesis
    by simp
qed

lemma region_loop_returns_on_progress:
  assumes prog: "makes_progress tr"
  shows "\<exists>out. region_loop tr devReg fi n stored st = Some out"
proof (induction "unat n" arbitrary: n fi stored st rule: less_induct)
  case less
  show ?case
  proof (cases "n = 0")
    case True
    then show ?thesis
      by (subst region_loop.simps) simp
  next
    case False
    define c :: u8 where
      "c = (if kDefaultBufferChunk < n then ucast kDefaultBufferChunk else ucast n)"
    have uc: "unat c = min 32 (unat n)"
      unfolding c_def by (rule nChunk_unat)
    from False have npos: "0 < unat n"
      by (simp add: unat_gt_0)
    obtain result st1 where w: "(if fi then write_blocking tr devReg True st else (0, st)) = (result, st1)"
      by fastforce
    show ?thesis
    proof (cases "result < 0")
      case True
      with False w show ?thesis
        by (subst region_loop.simps) (simp add: word_gt_0)
    next
      case nonneg: False
      obtain r d where rd: "i2c_read_blocking tr (dev st1) kDefaultAddress (unat c) (ucast c < n) = (r, d)"
        by fastforce
      define st2 where "st2 = \<lparr>dev = d, trace = trace st1 @ [I2cRead (unat c) (ucast c < n) r]\<rparr>"
      show ?thesis
      proof (cases r)
        case None
        with False w nonneg rd show ?thesis
          by (subst region_loop.simps)
            (simp add: word_gt_0 c_def[symmetric] read_blocking_def PICO_ERROR_GENERIC_def Let_def)
      next
        case (Some bs)
        from uc npos have cpos: "0 < unat c"
          by simp
        from makes_progressD[OF prog rd[unfolded Some] cpos]
        have len: "0 < length bs" "length bs \<le> unat c"
          by simp_all
        define n' where "n' = n - word_of_int (int (length bs))"
        have le: "(word_of_nat (length bs) :: size_t) \<le> n"
          using uc len by (simp add: word_le_nat_alt unat_of_nat take_bit_nat_eq_self flip: take_bit_eq_mod)
        have "unat n' = unat n - length bs"
          unfolding n'_def using le uc len
          by (simp add: unat_sub unat_of_nat take_bit_nat_eq_self flip: take_bit_eq_mod)
        with npos len have dec: "unat n' < unat n"
          by simp
        from less[OF dec, of False "stored @ bs" st2]
        obtain out where run: "region_loop tr devReg False n' (stored @ bs) st2 = Some out" ..
        have "region_loop tr devReg fi n stored st = Some out"
          using False w nonneg rd Some run
          by (subst region_loop.simps)
            (simp add: word_gt_0 c_def[symmetric] read_blocking_def Let_def n'_def st2_def)
        then show ?thesis ..
      qed
    qed
  qed
qed

lemma never_under_read:
  assumes "readRegisterRegionAnyAddress tr devReg data numBytes readBytes st = Some (err, data', readBytes', st')"
  shows "err \<noteq> kSTkErrBusUnderRead \<and> (err = kSTkErrOk \<longrightarrow> readBytes' = numBytes)"
  using assms region_loop_exit_zero[of tr devReg True numBytes "[]" st]
  by (auto simp: readRegisterRegionAnyAddress_def kSTkErr_values Let_def
      split: if_splits option.splits loop_exit.splits prod.splits)

lemma delivers_in_full_full: "delivers_in_full full"
  by (simp add: delivers_in_full_def full_fields)

text \<open>
  C10 (the code does not do this). The claim is that \<open>readRegisterRegionAnyAddress\<close>
  returns whenever every read reports an error or delivers between 0 and the requested
  number of bytes. A read that delivers 0 bytes leaves \<open>numBytes\<close> as it is, and the loop
  asks again: on a device with nothing to deliver, a request for one byte never returns.
  (\<open>region_loop_returns_on_progress\<close>: it does return when every read that succeeds
  delivers at least one byte.)
\<close>

theorem stalled_read_never_returns:
  "readRegisterRegionAnyAddress fifo [0x20] (Some [0]) 1 0 (bus0 0) = None"
  by (simp add: readRegisterRegionAnyAddress_def fifo_empty_diverges bus0_def fifo_fields)

text \<open>
  C1 (the code does not do this). The claim is that a call in which the transport delivers
  fewer bytes in total than requested, without an error, returns UNDER_READ with the bytes
  accumulated. The loop is left only with \<open>numBytes\<close> at 0, so UNDER_READ is never
  returned (\<open>never_under_read\<close>); on a device that delivers 2 of the 4 bytes requested and
  then nothing, the call never returns.
\<close>

theorem short_read_never_returns:
  "readRegisterRegion fifo 0x20 (Some [0, 0, 0, 0]) 4 0 (bus0 2) = None"
proof -
  have "region_loop fifo [0x20] True 4 [] (bus0 2) =
      region_loop fifo [0x20] False 2 (replicate 2 0)
        \<lparr>dev = 0, trace = [I2cWrite [0x20] True (Some 1), I2cRead 4 False (Some (replicate 2 0))]\<rparr>"
    by (subst region_loop.simps)
      (simp add: fifo_fields write_blocking_def read_blocking_def kDefaultBufferChunk_def bus0_def)
  also have "\<dots> = None"
    by (rule fifo_empty_diverges) simp_all
  finally show ?thesis
    by (simp add: readRegisterRegion_def readRegisterRegionAnyAddress_def fifo_fields)
qed

lemma region_read_requests:
  assumes "delivers_in_full tr"
  shows "\<exists>err data' readBytes' st' evs.
           readRegisterRegion tr devReg data numBytes readBytes st = Some (err, data', readBytes', st') \<and>
           trace st' = trace st @ evs \<and>
           (err = kSTkErrOk \<longrightarrow> read_requests evs = chunk_requests (unat numBytes))"
proof (cases "i2c_port tr \<and> data \<noteq> None")
  case False
  then show ?thesis
    by (auto simp: readRegisterRegion_def readRegisterRegionAnyAddress_def kSTkErr_values)
next
  case True
  then obtain buf where buf: "data = Some buf" and port: "i2c_port tr"
    by auto
  from region_loop_in_full[OF assms, of "[devReg]" True numBytes "[]" st]
  obtain out evs where
    run: "region_loop tr [devReg] True numBytes [] st = Some out" and
    tr: "trace (snd (snd (exit_state out))) = trace st @ evs" and
    rq: "\<forall>a. out = Exited a \<longrightarrow> read_requests evs = chunk_requests (unat numBytes)"
    by blast
  show ?thesis
  proof (cases out)
    case (Returned e a)
    obtain n stored st' where a: "a = (n, stored, st')"
      by (cases a)
    from region_loop_exit_zero[OF run] Returned have "e = kSTkErrFail"
      by simp
    with run tr Returned a buf port show ?thesis
      by (simp add: readRegisterRegion_def readRegisterRegionAnyAddress_def kSTkErr_values)
  next
    case (Exited a)
    obtain n stored st' where a: "a = (n, stored, st')"
      by (cases a)
    with run tr rq Exited buf port show ?thesis
      by (simp add: readRegisterRegion_def readRegisterRegionAnyAddress_def)
  qed
qed

text \<open>
  C5, amended. On a transport whose reads either fail or deliver every byte asked for,
  every call of \<open>readRegisterRegion\<close> returns, and a successful call has made exactly
  the reads \<open>chunk_requests numBytes\<close>: \<open>(numBytes + 31) div 32\<close> of them (none for
  \<open>numBytes = 0\<close>, one for 1 to 32 bytes), each for at most 32 bytes, every read but the
  last holding the bus and the last releasing it.
\<close>

theorem region_read_chunks:
  assumes "delivers_in_full tr"
  shows "\<exists>err data' readBytes' st' evs.
           readRegisterRegion tr devReg data numBytes readBytes st = Some (err, data', readBytes', st') \<and>
           trace st' = trace st @ evs \<and>
           (err = kSTkErrOk \<longrightarrow>
              read_requests evs = chunk_requests (unat numBytes) \<and>
              length (read_requests evs) = (unat numBytes + 31) div 32)"
proof -
  from region_read_requests[OF assms, of devReg data numBytes readBytes st]
  obtain err data' readBytes' st' evs where
    r: "readRegisterRegion tr devReg data numBytes readBytes st = Some (err, data', readBytes', st') \<and>
        trace st' = trace st @ evs \<and>
        (err = kSTkErrOk \<longrightarrow> read_requests evs = chunk_requests (unat numBytes))"
    by (elim exE)
  have "length (chunk_requests (unat numBytes)) = (unat numBytes + 31) div 32"
    by (simp add: chunk_requests_def)
  with r show ?thesis
    by (intro exI[of _ err] exI[of _ data'] exI[of _ readBytes'] exI[of _ st'] exI[of _ evs]) simp
qed

theorem region_read_chunks_witness:
  "delivers_in_full full \<and>
   (\<exists>err data' readBytes' st' evs.
      readRegisterRegion full 0x20 (Some (replicate 40 7)) 40 0 (bus0 ()) =
        Some (err, data', readBytes', st') \<and>
      trace st' = trace (bus0 ()) @ evs \<and>
      (err = kSTkErrOk \<longrightarrow>
         read_requests evs = chunk_requests (unat (40 :: size_t)) \<and>
         length (read_requests evs) = (unat (40 :: size_t) + 31) div 32)) \<and>
   chunk_requests (unat (40 :: size_t)) = [(32, True), (8, False)]"
proof -
  have "chunk_requests (unat (40 :: size_t)) = [(32, True), (8, False)]"
    by code_simp
  with delivers_in_full_full
    region_read_chunks[OF delivers_in_full_full, of "0x20" "Some (replicate 40 7)" 40 0 "bus0 ()"]
  show ?thesis
    by (intro conjI)
qed

text \<open>
  The claim as stated fails twice. A successful call with \<open>numBytes = 0\<close> makes no read
  at all, not one. And a successful call for 2 bytes on a transport that delivers one
  byte per read makes two reads.
\<close>

theorem region_read_count_counterexample:
  "readRegisterRegion full 0x20 (Some []) 0 0 (bus0 ()) =
     Some (kSTkErrOk, Some [], 0, \<lparr>dev = (), trace = []\<rparr>)
   \<and> length (read_requests []) = 0
   \<and> readRegisterRegion scripted 0x20 (Some [0, 0]) 2 0 (bus0 [Some [7], Some [9]]) =
       Some (kSTkErrOk, Some [7, 9], 2,
             \<lparr>dev = [],
              trace = [I2cWrite [0x20] True (Some 1), I2cRead 2 False (Some [7]),
                       I2cRead 1 False (Some [9])]\<rparr>)
   \<and> length (read_requests [I2cWrite [0x20] True (Some 1), I2cRead 2 False (Some [7]),
                              I2cRead 1 False (Some [9])]) = 2"
  by code_simp

section \<open>The scalar calibration values\<close>

lemma float_to_int_of_int [simp]: "float_to_int (of_int k) = k"
  by (simp add: float_to_int_def)

lemma scalar_getters_collapse:
  "fst (getLinearScalar fl hdr tr rawScalar0 scalar st) =
     (if fst (readRegisterByte tr (kRegScalarLinear hdr) rawScalar0 st) = kSTkErrOk
      then kSTkErrOk else kSTkErrFail)"
  "fst (getAngularScalar fl hdr tr rawScalar0 scalar st) =
     (if fst (readRegisterByte tr (kRegScalarAngular hdr) rawScalar0 st) = kSTkErrOk
      then kSTkErrOk else kSTkErrFail)"
  by (simp_all add: getLinearScalar_def getAngularScalar_def split: prod.splits)

lemma scalar_decode:
  assumes "readRegisterByte tr (kRegScalarLinear hdr) rawScalar0 st = (kSTkErrOk, b, st')"
  shows "getLinearScalar (\<lambda>v. v) hdr tr rawScalar0 scalar st = (kSTkErrOk, real_of_int (sint b) * 0.001 + 1, st')"
  using assms by (simp add: getLinearScalar_def)

lemma scalar_encode_above_one:
  assumes "1 \<le> scalar" "scalar \<le> 1.125"
  shows "setLinearScalar (\<lambda>v. v) hdr tr scalar st =
     writeRegisterByte tr (kRegScalarLinear hdr) (word_of_int (round ((scalar - 1) * 1000))) st"
  using assms
  by (simp add: setLinearScalar_def kMinScalar_def kMaxScalar_def float_to_int_def round_def Let_def)

lemma readRegisterByte_codes:
  assumes "i2c_port tr"
  shows "fst (readRegisterByte tr devReg dataToRead st) = kSTkErrOk
       \<or> fst (readRegisterByte tr devReg dataToRead st) = kSTkErrFail"
  using assms by (simp add: readRegisterByte_def split: prod.splits)

lemma scalar_getters_bus:
  "snd (snd (getLinearScalar fl hdr tr rawScalar0 scalar st)) =
     snd (snd (readRegisterByte tr (kRegScalarLinear hdr) rawScalar0 st))"
  "snd (snd (getAngularScalar fl hdr tr rawScalar0 scalar st)) =
     snd (snd (readRegisterByte tr (kRegScalarAngular hdr) rawScalar0 st))"
  by (simp_all add: getLinearScalar_def getAngularScalar_def split: prod.splits)

lemma scalar_getters_null_port:
  assumes "\<not> i2c_port tr"
  shows "fst (readRegisterByte tr (kRegScalarLinear hdr) rawScalar0 st) = kSTkErrBusNotInit"
    and "fst (getLinearScalar fl hdr tr rawScalar0 scalar st) = kSTkErrFail"
    and "fst (getAngularScalar fl hdr tr rawScalar0 scalar st) = kSTkErrFail"
  using assms
  by (simp_all add: readRegisterByte_def getLinearScalar_def getAngularScalar_def kSTkErr_values)

text \<open>
  C2. \<open>CONFIG::i2c_port\<close> is the constant \<open>i2c0\<close> of utils.h, a non-null instance.
  With the port set, \<open>readRegisterByte\<close> returns OK or FAIL and no other code, and
  \<open>getLinearScalar\<close> and \<open>getAngularScalar\<close> return to their caller exactly the
  code that \<open>readRegisterByte\<close> returned, and leave the bus as it left it. (The
  getters answer every code other than OK with FAIL, \<open>scalar_getters_collapse\<close>; that
  would change a code only for a null port, \<open>scalar_getters_null_port\<close>.)
\<close>

theorem scalar_getters_pass_error_code:
  assumes "i2c_port tr"
  shows "fst (getLinearScalar fl hdr tr rawScalar0 scalar st) =
           fst (readRegisterByte tr (kRegScalarLinear hdr) rawScalar0 st)
       \<and> fst (getAngularScalar fl hdr tr rawScalar0 scalar st) =
           fst (readRegisterByte tr (kRegScalarAngular hdr) rawScalar0 st)
       \<and> snd (snd (getLinearScalar fl hdr tr rawScalar0 scalar st)) =
           snd (snd (readRegisterByte tr (kRegScalarLinear hdr) rawScalar0 st))
       \<and> snd (snd (getAngularScalar fl hdr tr rawScalar0 scalar st)) =
           snd (snd (readRegisterByte tr (kRegScalarAngular hdr) rawScalar0 st))
       \<and> (fst (readRegisterByte tr devReg rawScalar0 st) = kSTkErrOk
            \<or> fst (readRegisterByte tr devReg rawScalar0 st) = kSTkErrFail)"
proof -
  have lin: "fst (getLinearScalar fl hdr tr rawScalar0 scalar st) =
      fst (readRegisterByte tr (kRegScalarLinear hdr) rawScalar0 st)"
    using readRegisterByte_codes[OF assms, of "kRegScalarLinear hdr" rawScalar0 st]
    by (auto simp: scalar_getters_collapse(1))
  have ang: "fst (getAngularScalar fl hdr tr rawScalar0 scalar st) =
      fst (readRegisterByte tr (kRegScalarAngular hdr) rawScalar0 st)"
    using readRegisterByte_codes[OF assms, of "kRegScalarAngular hdr" rawScalar0 st]
    by (auto simp: scalar_getters_collapse(2))
  from lin ang scalar_getters_bus[of fl hdr tr rawScalar0 scalar st]
    readRegisterByte_codes[OF assms, of devReg rawScalar0 st]
  show ?thesis
    by (intro conjI)
qed

theorem scalar_getters_pass_error_code_witness:
  "i2c_port scripted
   \<and> fst (readRegisterByte scripted (kRegScalarLinear demo_header) 0 (bus0 [None])) = kSTkErrFail
   \<and> fst (getLinearScalar (\<lambda>v. v) demo_header scripted 0 0 (bus0 [None])) = kSTkErrFail
   \<and> fst (readRegisterByte scripted (kRegScalarAngular demo_header) 0 (bus0 [Some [0x64]])) = kSTkErrOk
   \<and> fst (getAngularScalar (\<lambda>v. v) demo_header scripted 0 0 (bus0 [Some [0x64]])) = kSTkErrOk"
proof -
  have port: "i2c_port scripted"
    by (simp add: scripted_fields)
  have lin: "fst (readRegisterByte scripted (kRegScalarLinear demo_header) 0 (bus0 [None])) = kSTkErrFail"
    by (simp add: readRegisterByte_def write_blocking_def read_blocking_def scripted_fields
        bus0_def kSTkErr_values PICO_ERROR_GENERIC_def)
  have ang: "fst (readRegisterByte scripted (kRegScalarAngular demo_header) 0 (bus0 [Some [0x64]])) = kSTkErrOk"
    by (simp add: readRegisterByte_def write_blocking_def read_blocking_def scripted_fields
        bus0_def kSTkErr_values)
  from scalar_getters_pass_error_code[OF port, of "\<lambda>v. v" demo_header 0 0 "bus0 [None]"] lin
  have l: "fst (getLinearScalar (\<lambda>v. v) demo_header scripted 0 0 (bus0 [None])) = kSTkErrFail"
    by simp
  from scalar_getters_pass_error_code[OF port, of "\<lambda>v. v" demo_header 0 0 "bus0 [Some [0x64]]"] ang
  have a: "fst (getAngularScalar (\<lambda>v. v) demo_header scripted 0 0 (bus0 [Some [0x64]])) = kSTkErrOk"
    by simp
  from port lin l ang a show ?thesis
    by (intro conjI)
qed

text \<open>
  C3 (the code does not do this). The claim is that the byte written for an accepted
  scalar \<open>s\<close> is \<open>round ((s - 1) * 1000)\<close>. The source adds 0.5 and converts to
  \<open>int8_t\<close>, which truncates towards zero: that rounds for \<open>s \<ge> 1\<close>
  (\<open>scalar_encode_above_one\<close>) and is one too high below. For \<open>s = 0.875\<close>, where
  every intermediate value is a binary32 number and no operation rounds, the byte written
  is 0x84 (-124), and the rounded value is -125 (0x83). The decoding half of the claim
  holds in exact arithmetic (\<open>scalar_decode\<close>).
\<close>

theorem setScalar_truncates_below_one:
  "setLinearScalar (\<lambda>v. v) hdr tr 0.875 st = writeRegisterByte tr (kRegScalarLinear hdr) 0x84 st
   \<and> setAngularScalar (\<lambda>v. v) hdr tr 0.875 st = writeRegisterByte tr (kRegScalarAngular hdr) 0x84 st
   \<and> (word_of_int (round ((0.875 - 1) * 1000 :: real)) :: u8) = 0x83"
proof -
  have e: "(0x84 :: u8) = - 124" and e': "(0x83 :: u8) = - 125"
    by (transfer, simp)+
  show ?thesis
    unfolding e e'
    by (simp add: setLinearScalar_def setAngularScalar_def kMinScalar_def kMaxScalar_def
        float_to_int_def)
qed

text \<open>
  C4. For every scalar below 0.875 or above 1.125, \<open>setLinearScalar\<close> and
  \<open>setAngularScalar\<close> return FAIL and leave the bus, with its record of accesses, as
  it was. For 0.875 and for 1.125 the result is that of \<open>writeRegisterByte\<close> on the
  scalar's register, which on an initialised bus is exactly one write of the register
  address and a byte.
\<close>

theorem setScalar_range_check:
  "(scalar < 0.875 \<or> 1.125 < scalar \<longrightarrow>
      setLinearScalar fl hdr tr scalar st = (kSTkErrFail, st) \<and>
      setAngularScalar fl hdr tr scalar st = (kSTkErrFail, st))
   \<and> (scalar = 0.875 \<or> scalar = 1.125 \<longrightarrow>
        (\<exists>raw. setLinearScalar fl hdr tr scalar st = writeRegisterByte tr (kRegScalarLinear hdr) raw st) \<and>
        (\<exists>raw. setAngularScalar fl hdr tr scalar st = writeRegisterByte tr (kRegScalarAngular hdr) raw st) \<and>
        (i2c_port tr \<longrightarrow>
           (\<exists>raw r. trace (snd (setLinearScalar fl hdr tr scalar st)) =
                      trace st @ [I2cWrite [kRegScalarLinear hdr, raw] False r]) \<and>
           (\<exists>raw r. trace (snd (setAngularScalar fl hdr tr scalar st)) =
                      trace st @ [I2cWrite [kRegScalarAngular hdr, raw] False r])))"
proof -
  have wr: "i2c_port tr \<Longrightarrow> \<exists>r. trace (snd (writeRegisterByte tr reg raw st)) = trace st @ [I2cWrite [reg, raw] False r]"
    for reg raw
    by (simp add: writeRegisterByte_def write_blocking_def split: prod.splits)
  have inside: "\<not> (scalar < kMinScalar \<or> scalar > kMaxScalar)" if "scalar = 0.875 \<or> scalar = 1.125"
    using that by (auto simp: kMinScalar_def kMaxScalar_def)
  show ?thesis
  proof (intro conjI impI)
    assume out: "scalar < 0.875 \<or> 1.125 < scalar"
    then show "setLinearScalar fl hdr tr scalar st = (kSTkErrFail, st)"
      by (auto simp: setLinearScalar_def kMinScalar_def kMaxScalar_def)
    from out show "setAngularScalar fl hdr tr scalar st = (kSTkErrFail, st)"
      by (auto simp: setAngularScalar_def kMinScalar_def kMaxScalar_def)
  next
    assume b: "scalar = 0.875 \<or> scalar = 1.125"
    show "\<exists>raw. setLinearScalar fl hdr tr scalar st = writeRegisterByte tr (kRegScalarLinear hdr) raw st"
      using inside[OF b] by (simp add: setLinearScalar_def Let_def) blast
    show "\<exists>raw. setAngularScalar fl hdr tr scalar st = writeRegisterByte tr (kRegScalarAngular hdr) raw st"
      using inside[OF b] by (simp add: setAngularScalar_def Let_def) blast
    assume port: "i2c_port tr"
    show "\<exists>raw r. trace (snd (setLinearScalar fl hdr tr scalar st)) =
                      trace st @ [I2cWrite [kRegScalarLinear hdr, raw] False r]"
      using inside[OF b] wr[OF port] by (simp add: setLinearScalar_def Let_def) blast
    show "\<exists>raw r. trace (snd (setAngularScalar fl hdr tr scalar st)) =
                      trace st @ [I2cWrite [kRegScalarAngular hdr, raw] False r]"
      using inside[OF b] wr[OF port] by (simp add: setAngularScalar_def Let_def) blast
  qed
qed

theorem setScalar_range_check_witness:
  "setLinearScalar (\<lambda>v. v) demo_header scripted 0.5 (bus0 []) = (kSTkErrFail, bus0 [])
   \<and> setAngularScalar (\<lambda>v. v) demo_header scripted 1.2 (bus0 []) = (kSTkErrFail, bus0 [])
   \<and> (\<exists>raw r. trace (snd (setLinearScalar (\<lambda>v. v) demo_header scripted 0.875 (bus0 []))) =
                 [I2cWrite [kRegScalarLinear demo_header, raw] False r])
   \<and> (\<exists>raw r. trace (snd (setAngularScalar (\<lambda>v. v) demo_header scripted 1.125 (bus0 []))) =
                 [I2cWrite [kRegScalarAngular demo_header, raw] False r])"
proof -
  have port: "i2c_port scripted"
    by (simp add: scripted_fields)
  from setScalar_range_check[of "0.5" "\<lambda>v. v" demo_header scripted "bus0 []"]
  have low: "setLinearScalar (\<lambda>v. v) demo_header scripted 0.5 (bus0 []) = (kSTkErrFail, bus0 [])"
    by simp
  from setScalar_range_check[of "1.2" "\<lambda>v. v" demo_header scripted "bus0 []"]
  have high: "setAngularScalar (\<lambda>v. v) demo_header scripted 1.2 (bus0 []) = (kSTkErrFail, bus0 [])"
    by simp
  from setScalar_range_check[of "0.875" "\<lambda>v. v" demo_header scripted "bus0 []"] port
  have lo: "\<exists>raw r. trace (snd (setLinearScalar (\<lambda>v. v) demo_header scripted 0.875 (bus0 []))) =
                 [I2cWrite [kRegScalarLinear demo_header, raw] False r]"
    by (simp add: bus0_def)
  from setScalar_range_check[of "1.125" "\<lambda>v. v" demo_header scripted "bus0 []"] port
  have hi: "\<exists>raw r. trace (snd (setAngularScalar (\<lambda>v. v) demo_header scripted 1.125 (bus0 []))) =
                 [I2cWrite [kRegScalarAngular demo_header, raw] False r]"
    by (simp add: bus0_def)
  from low high lo hi show ?thesis
    by (intro conjI)
qed

section \<open>The pose codec\<close>

lemma magnitude_within_mult:
  assumes "magnitude_within m x" and "magnitude_within n y"
  shows "magnitude_within (m + n) (x * y)"
proof -
  from assms have x: "1 / 2 ^ m \<le> \<bar>x\<bar>" "\<bar>x\<bar> \<le> 2 ^ m" and y: "1 / 2 ^ n \<le> \<bar>y\<bar>" "\<bar>y\<bar> \<le> 2 ^ n"
    by (simp_all add: magnitude_within_def)
  have "(1 / 2 ^ m) * (1 / 2 ^ n) \<le> \<bar>x\<bar> * \<bar>y\<bar>"
    by (rule mult_mono) (use x y in simp_all)
  moreover have "\<bar>x\<bar> * \<bar>y\<bar> \<le> 2 ^ m * 2 ^ n"
    by (rule mult_mono) (use x y in simp_all)
  ultimately show ?thesis
    by (simp add: magnitude_within_def abs_mult power_add)
qed

lemma magnitude_within_normal:
  assumes "magnitude_within n x" and "n \<le> 126"
  shows "binary32_normal x"
proof -
  from assms(1) have x: "1 / 2 ^ n \<le> \<bar>x\<bar>" "\<bar>x\<bar> \<le> 2 ^ n"
    by (simp_all add: magnitude_within_def)
  have up: "(2 :: real) ^ n \<le> 2 ^ 126"
    using assms(2) by (intro power_increasing) simp_all
  then have "1 / 2 ^ 126 \<le> 1 / (2 :: real) ^ n"
    by (intro divide_left_mono) simp_all
  moreover have "(2 :: real) ^ 126 \<le> 2 ^ 127"
    by (intro power_increasing) simp_all
  ultimately show ?thesis
    unfolding binary32_normal_def using x up by linarith
qed

lemma magnitude_within_factor:
  assumes "\<bar>d - 1\<bar> \<le> 1 / 2 ^ 24"
  shows "magnitude_within 1 d"
proof -
  have "1 / 2 ^ 24 \<le> (1 / 2 :: real)"
    by simp
  with assms have "1 / 2 \<le> d" and "d \<le> 2"
    by linarith+
  then show ?thesis
    by (simp add: magnitude_within_def)
qed

lemma magnitude_within_int16:
  fixes v :: int
  assumes "v \<noteq> 0" and "- 32768 \<le> v" and "v \<le> 32767"
  shows "magnitude_within 15 (real_of_int v)"
proof -
  from assms have "1 \<le> \<bar>v\<bar>" and "\<bar>v\<bar> \<le> 32768"
    by linarith+
  then have "1 \<le> \<bar>real_of_int v\<bar>" and "\<bar>real_of_int v\<bar> \<le> 32768"
    by linarith+
  then show ?thesis
    by (simp add: magnitude_within_def)
qed

lemma fl_factor:
  assumes "rounds_to_nearest fl" and "v = 0 \<or> binary32_normal v"
  obtains d where "fl v = v * d" and "\<bar>d - 1\<bar> \<le> 1 / 2 ^ 24"
proof (cases "v = 0")
  case True
  from assms(1) have "fl 0 = 0"
    by (simp add: rounds_to_nearest_def)
  with True have "fl v = v * 1"
    by simp
  then show ?thesis
    by (rule that) simp
next
  case False
  with assms have b: "\<bar>fl v - v\<bar> \<le> \<bar>v\<bar> / 2 ^ 24"
    unfolding rounds_to_nearest_def by blast
  have "\<bar>fl v / v - 1\<bar> = \<bar>fl v - v\<bar> / \<bar>v\<bar>"
    using False by (simp add: diff_divide_distrib flip: abs_divide)
  also have "\<dots> \<le> (\<bar>v\<bar> / 2 ^ 24) / \<bar>v\<bar>"
    using b False by (simp add: divide_right_mono)
  also have "\<dots> = 1 / 2 ^ 24"
    using False by simp
  finally have "\<bar>fl v / v - 1\<bar> \<le> 1 / 2 ^ 24" .
  moreover have "fl v = v * (fl v / v)"
    using False by simp
  ultimately show ?thesis
    by (rule that[rotated])
qed

lemma rel_step:
  fixes p q :: real
  assumes p: "\<bar>p - 1\<bar> \<le> k * e" and q: "\<bar>q - 1\<bar> \<le> e" and k: "k * e \<le> 1"
  shows "\<bar>p * q - 1\<bar> \<le> (k + 2) * e"
proof -
  have e0: "0 \<le> e"
    using q by linarith
  have eq: "p * q - 1 = (p - 1) * (q - 1) + (p - 1) + (q - 1)"
    by (simp add: algebra_simps)
  have "\<bar>p * q - 1\<bar> \<le> \<bar>(p - 1) * (q - 1)\<bar> + \<bar>p - 1\<bar> + \<bar>q - 1\<bar>"
    unfolding eq by linarith
  then have tri: "\<bar>p * q - 1\<bar> \<le> \<bar>p - 1\<bar> * \<bar>q - 1\<bar> + \<bar>p - 1\<bar> + \<bar>q - 1\<bar>"
    by (simp only: abs_mult)
  have "\<bar>p - 1\<bar> * \<bar>q - 1\<bar> \<le> 1 * e"
  proof (rule mult_mono)
    show "\<bar>p - 1\<bar> \<le> 1"
      using p k by linarith
    show "\<bar>q - 1\<bar> \<le> e"
      by (rule q)
  qed simp_all
  with tri p q have "\<bar>p * q - 1\<bar> \<le> e + k * e + e"
    by linarith
  then show ?thesis
    by (simp add: algebra_simps)
qed

lemma float_to_int_near:
  fixes v :: int
  assumes "\<bar>r - of_int v\<bar> < 1"
  shows "\<bar>float_to_int r - v\<bar> \<le> 1"
    and "\<bar>float_to_int r\<bar> \<le> \<bar>v\<bar>"
    and "- 32768 \<le> v \<Longrightarrow> v \<le> 32767 \<Longrightarrow> - 32768 \<le> float_to_int r \<and> float_to_int r \<le> 32767"
proof -
  have f: "of_int \<lfloor>r\<rfloor> \<le> r" "r < of_int \<lfloor>r\<rfloor> + 1"
    by linarith+
  have c: "r \<le> of_int \<lceil>r\<rceil>" "of_int \<lceil>r\<rceil> < r + 1"
    by linarith+
  from assms have b: "of_int v - 1 < r" "r < of_int v + 1"
    by linarith+
  have fl: "v - 1 \<le> \<lfloor>r\<rfloor>" "\<lfloor>r\<rfloor> \<le> v"
    using b by (simp_all add: le_floor_iff floor_le_iff)
  have ce: "v \<le> \<lceil>r\<rceil>" "\<lceil>r\<rceil> \<le> v + 1"
    using b by (simp_all add: le_ceiling_iff ceiling_le_iff)
  have cases: "float_to_int r = \<lceil>r\<rceil> \<and> \<lceil>r\<rceil> \<le> 0 \<or> float_to_int r = \<lfloor>r\<rfloor> \<and> 0 \<le> \<lfloor>r\<rfloor>"
  proof (cases "r < 0")
    case True
    then have "\<lceil>r\<rceil> \<le> 0"
      by (simp add: ceiling_le_iff)
    with True show ?thesis
      by (simp add: float_to_int_def)
  next
    case False
    then have "0 \<le> \<lfloor>r\<rfloor>"
      by simp
    with False show ?thesis
      by (simp add: float_to_int_def)
  qed
  show "\<bar>float_to_int r - v\<bar> \<le> 1"
    using fl ce cases by linarith
  show "\<bar>float_to_int r\<bar> \<le> \<bar>v\<bar>"
    using fl ce cases by linarith
  assume v: "- 32768 \<le> v" "v \<le> 32767"
  show "- 32768 \<le> float_to_int r \<and> float_to_int r \<le> 32767"
    using fl ce cases v by linarith
qed

lemma round_trip_value:
  fixes v :: int
  assumes fl: "rounds_to_nearest fl"
    and inv: "\<bar>k * s - 1\<bar> \<le> 1 / 2 ^ 24"
    and s: "magnitude_within 40 s"
    and u: "magnitude_within 40 u"
    and v: "- 32768 \<le> v" "v \<le> 32767"
  shows "\<bar>fl (fl (fl (fl (of_int v * s) * u) * k) / u) - of_int v\<bar> < 1"
proof (cases "v = 0")
  case True
  from fl have "fl 0 = 0"
    by (simp add: rounds_to_nearest_def)
  with True show ?thesis
    by simp
next
  case False
  define e :: real where "e = 1 / 2 ^ 24"
  define x :: real where "x = of_int v"
  have u0: "u \<noteq> 0"
    using u by (auto simp: magnitude_within_def)
  have wx: "magnitude_within 15 x"
    unfolding x_def by (rule magnitude_within_int16[OF False v])
  have wks: "magnitude_within 1 (k * s)"
    by (rule magnitude_within_factor[OF inv])
  have w1: "magnitude_within 55 (x * s)"
    using magnitude_within_mult[OF wx s] by simp
  have n1: "binary32_normal (x * s)"
    by (rule magnitude_within_normal[OF w1]) simp
  obtain d1 where d1: "fl (x * s) = x * s * d1" and b1: "\<bar>d1 - 1\<bar> \<le> e"
    unfolding e_def by (rule fl_factor[OF fl disjI2[OF n1]])
  have wd1: "magnitude_within 1 d1"
    using b1 unfolding e_def by (rule magnitude_within_factor)
  have w2: "magnitude_within 96 (x * s * d1 * u)"
    using magnitude_within_mult[OF magnitude_within_mult[OF w1 wd1] u] by simp
  have n2: "binary32_normal (x * s * d1 * u)"
    by (rule magnitude_within_normal[OF w2]) simp
  obtain d2 where d2: "fl (x * s * d1 * u) = x * s * d1 * u * d2" and b2: "\<bar>d2 - 1\<bar> \<le> e"
    unfolding e_def by (rule fl_factor[OF fl disjI2[OF n2]])
  have wd2: "magnitude_within 1 d2"
    using b2 unfolding e_def by (rule magnitude_within_factor)
  have "magnitude_within 58 (k * s * x * d1 * u * d2)"
    using magnitude_within_mult[OF magnitude_within_mult[OF magnitude_within_mult[OF
          magnitude_within_mult[OF wks wx] wd1] u] wd2]
    by simp
  moreover have "k * s * x * d1 * u * d2 = x * s * d1 * u * d2 * k"
    by simp
  ultimately have w3: "magnitude_within 58 (x * s * d1 * u * d2 * k)"
    by simp
  have n3: "binary32_normal (x * s * d1 * u * d2 * k)"
    by (rule magnitude_within_normal[OF w3]) simp
  obtain d3 where d3: "fl (x * s * d1 * u * d2 * k) = x * s * d1 * u * d2 * k * d3"
    and b3: "\<bar>d3 - 1\<bar> \<le> e"
    unfolding e_def by (rule fl_factor[OF fl disjI2[OF n3]])
  have wd3: "magnitude_within 1 d3"
    using b3 unfolding e_def by (rule magnitude_within_factor)
  have "magnitude_within 19 (k * s * x * d1 * d2 * d3)"
    using magnitude_within_mult[OF magnitude_within_mult[OF magnitude_within_mult[OF
          magnitude_within_mult[OF wks wx] wd1] wd2] wd3]
    by simp
  moreover have "k * s * x * d1 * d2 * d3 = x * s * d1 * u * d2 * k * d3 / u"
    using u0 by simp
  ultimately have w4: "magnitude_within 19 (x * s * d1 * u * d2 * k * d3 / u)"
    by simp
  have n4: "binary32_normal (x * s * d1 * u * d2 * k * d3 / u)"
    by (rule magnitude_within_normal[OF w4]) simp
  obtain d4 where d4: "fl (x * s * d1 * u * d2 * k * d3 / u) = x * s * d1 * u * d2 * k * d3 / u * d4"
    and b4: "\<bar>d4 - 1\<bar> \<le> e"
    unfolding e_def by (rule fl_factor[OF fl disjI2[OF n4]])
  define P where "P = k * s * d1 * d2 * d3 * d4"
  have r: "fl (fl (fl (fl (x * s) * u) * k) / u) = x * P"
    unfolding d1 d2 d3 d4 P_def using u0 by simp
  have "\<bar>k * s - 1\<bar> \<le> 1 * e"
    using inv by (simp add: e_def)
  then have "\<bar>k * s * d1 - 1\<bar> \<le> (1 + 2) * e"
    using b1 by (rule rel_step) (simp add: e_def)
  then have "\<bar>k * s * d1 * d2 - 1\<bar> \<le> (1 + 2 + 2) * e"
    using b2 by (rule rel_step) (simp add: e_def)
  then have "\<bar>k * s * d1 * d2 * d3 - 1\<bar> \<le> (1 + 2 + 2 + 2) * e"
    using b3 by (rule rel_step) (simp add: e_def)
  then have "\<bar>k * s * d1 * d2 * d3 * d4 - 1\<bar> \<le> (1 + 2 + 2 + 2 + 2) * e"
    using b4 by (rule rel_step) (simp add: e_def)
  then have P: "\<bar>P - 1\<bar> \<le> 9 / 2 ^ 24"
    by (simp add: P_def e_def)
  have "\<bar>x * P - x\<bar> = \<bar>x\<bar> * \<bar>P - 1\<bar>"
    by (simp add: algebra_simps flip: abs_mult)
  also have "\<dots> \<le> 32768 * (9 / 2 ^ 24)"
  proof (rule mult_mono)
    show "\<bar>x\<bar> \<le> 32768"
      unfolding x_def using v by simp
  qed (use P in simp_all)
  also have "\<dots> < 1"
    by simp
  finally show ?thesis
    unfolding r x_def[symmetric] .
qed

lemma uint_bytes16:
  fixes lo hi :: u8
  shows "uint (push_bit 8 (ucast hi) OR ucast lo :: 16 word) = uint lo + 256 * uint hi"
proof -
  have l: "0 \<le> uint lo" "uint lo < 256" and h: "0 \<le> uint hi" "uint hi < 256"
    using uint_lt2p[of lo] uint_lt2p[of hi] by simp_all
  have "(push_bit 8 (ucast hi) OR ucast lo :: 16 word) = word_cat hi lo"
    by (simp add: word_cat_eq_push_bit_or)
  also have "\<dots> = word_of_int (concat_bit 8 (uint lo) (uint hi))"
    by (simp add: word_cat_eq')
  finally have "uint (push_bit 8 (ucast hi) OR ucast lo :: 16 word) =
      take_bit 16 (concat_bit 8 (uint lo) (uint hi))"
    by (simp add: uint_word_of_int_eq)
  also have "concat_bit 8 (uint lo) (uint hi) = uint lo + 256 * uint hi"
    using take_bit_int_eq_self[of "uint lo" 8] l
    by (simp add: concat_bit_eq push_bit_eq_mult)
  also have "take_bit 16 (uint lo + 256 * uint hi) = uint lo + 256 * uint hi"
    by (rule take_bit_int_eq_self) (use l h in simp_all)
  finally show ?thesis .
qed

lemma sint_16_uint:
  fixes w :: "16 word"
  shows "sint w = (if uint w < 32768 then uint w else uint w - 65536)"
proof -
  have r: "0 \<le> uint w" "uint w < 65536"
    using uint_lt2p[of w] by simp_all
  have n: "- 32768 \<le> uint w"
    by (rule order_trans[of _ 0]) simp_all
  have s: "sint w = signed_take_bit 15 (uint w)"
    by (simp add: sint_uint)
  show ?thesis
  proof (cases "uint w < 32768")
    case True
    have "signed_take_bit 15 (uint w) = uint w"
      by (rule signed_take_bit_int_eq_self) (use n True in simp_all)
    then show ?thesis
      using True s by simp
  next
    case False
    have "take_bit 16 (uint w) = take_bit 16 (uint w - 65536)"
      by (simp add: take_bit_eq_mod)
    then have "signed_take_bit 15 (uint w) = signed_take_bit 15 (uint w - 65536)"
      by (simp add: signed_take_bit_eq_iff_take_bit_eq)
    also have "\<dots> = uint w - 65536"
      by (rule signed_take_bit_int_eq_self) (use r False in simp_all)
    finally show ?thesis
      using False s by simp
  qed
qed

lemma int16_le_uint:
  "int16_le lo hi =
     (if uint lo + 256 * uint hi < 32768 then uint lo + 256 * uint hi
      else uint lo + 256 * uint hi - 65536)"
  by (simp add: int16_le_def Let_def)

lemma int16_le_range: "- 32768 \<le> int16_le lo hi \<and> int16_le lo hi \<le> 32767"
proof -
  have "uint lo < 256" "uint hi < 256"
    using uint_lt2p[of lo] uint_lt2p[of hi] by simp_all
  with uint_ge_0[of lo] uint_ge_0[of hi] show ?thesis
    unfolding int16_le_uint by (split if_split) arith
qed

lemma int16_le_bytes:
  assumes "- 32768 \<le> v" and "v \<le> 32767"
  shows "int16_le (word_of_int v) (word_of_int (v div 256)) = v"
proof -
  have lo: "uint (word_of_int v :: u8) = v mod 256"
    by (simp add: uint_word_of_int_eq take_bit_eq_mod)
  have hi: "uint (word_of_int (v div 256) :: u8) = v div 256 mod 256"
    by (simp add: uint_word_of_int_eq take_bit_eq_mod)
  have n: "v mod 256 + 256 * (v div 256 mod 256) = v mod 65536"
    using zmod_zmult2_eq[of 256 v 256] by simp
  show ?thesis
  proof (cases "0 \<le> v")
    case True
    with assms have "v mod 65536 = v"
      by simp
    with assms show ?thesis
      unfolding int16_le_uint lo hi n by simp
  next
    case False
    with assms have "(v + 65536) mod 65536 = v + 65536"
      by (intro mod_pos_pos_trivial) simp_all
    then have "v mod 65536 = v + 65536"
      by simp
    with False assms show ?thesis
      unfolding int16_le_uint lo hi n by simp
  qed
qed

lemma int16_le_values:
  "int16_le 0x10 0 = 16" "int16_le 0x0F 0 = 15" "int16_le 0 1 = 256" "int16_le 0xFF 0 = 255"
  "int16_le 0xFF 0xFF = - 1" "int16_le 0 0x80 = - 32768" "int16_le 0xFF 0x7F = 32767"
  by (simp_all add: int16_le_def)

lemma regs_int16_value:
  "sint (regs_int16 rawData i) = int16_le (rawData ! i) (rawData ! (i + 1))"
  by (simp add: regs_int16_def int16_le_def sint_16_uint uint_bytes16 Let_def)

lemma int16_bytes:
  fixes w :: "16 word"
  shows "push_bit 8 (ucast (ucast (signed_drop_bit 8 w AND 0xFF) :: u8)) OR ucast (ucast (w AND 0xFF) :: u8) = w"
proof -
  have m: "(0xFF :: 16 word) = mask 8"
    by (simp add: mask_eq_exp_minus_1)
  show ?thesis
  proof (rule bit_word_eqI)
    fix n
    assume "n < LENGTH(16)"
    then show "bit (push_bit 8 (ucast (ucast (signed_drop_bit 8 w AND 0xFF) :: u8)) OR
                    ucast (ucast (w AND 0xFF) :: u8) :: 16 word) n = bit w n"
      unfolding m by (cases "n < 8") (auto simp: bit_simps)
  qed
qed

lemma regs_int16_poseToRegs:
  assumes "length buf = 6"
  shows "regs_int16 (poseToRegs fl this buf pose xyToRaw hToRaw) 0 =
           word_of_int (float_to_int (fl (fl (pose_x pose * xyToRaw) / meterToUnit this)))"
    and "regs_int16 (poseToRegs fl this buf pose xyToRaw hToRaw) 2 =
           word_of_int (float_to_int (fl (fl (pose_y pose * xyToRaw) / meterToUnit this)))"
    and "regs_int16 (poseToRegs fl this buf pose xyToRaw hToRaw) 4 =
           word_of_int (float_to_int (fl (fl (pose_h pose * hToRaw) / radToUnit this)))"
  using assms by (simp_all add: regs_int16_def poseToRegs_def Let_def int16_bytes)

lemma round_trip_int16:
  fixes w :: "16 word"
  assumes fl: "rounds_to_nearest fl"
    and inv: "\<bar>k * s - 1\<bar> \<le> 1 / 2 ^ 24"
    and s: "magnitude_within 40 s"
    and u: "magnitude_within 40 u"
  shows "\<bar>sint (word_of_int (float_to_int (fl (fl (fl (fl (real_of_int (sint w) * s) * u) * k) / u))) :: 16 word)
           - sint w\<bar> \<le> 1
       \<and> \<bar>sint (word_of_int (float_to_int (fl (fl (fl (fl (real_of_int (sint w) * s) * u) * k) / u))) :: 16 word)\<bar>
           \<le> \<bar>sint w\<bar>"
proof -
  have lo: "- 32768 \<le> sint w" and hi: "sint w \<le> 32767"
    using sint_ge[of w] sint_lt[of w] by simp_all
  let ?r = "fl (fl (fl (fl (real_of_int (sint w) * s) * u) * k) / u)"
  have near: "\<bar>?r - of_int (sint w)\<bar> < 1"
    by (rule round_trip_value[OF fl inv s u lo hi])
  from float_to_int_near(3)[OF near lo hi]
  have "sint (word_of_int (float_to_int ?r) :: 16 word) = float_to_int ?r"
    by (simp add: sint_sbintrunc' signed_take_bit_int_eq_self)
  with float_to_int_near(1,2)[OF near] show ?thesis
    by simp
qed

lemma rounds_to_nearest_exact: "rounds_to_nearest (\<lambda>v. v)"
  by (simp add: rounds_to_nearest_def)

lemma rounds_to_nearest_down: "rounds_to_nearest (\<lambda>v. v - \<bar>v\<bar> / 2 ^ 24)"
  by (simp add: rounds_to_nearest_def)

lemma pose_round_trip_exact:
  "poseToRegs (\<lambda>v. v) (sfeQwiicOtos_init demo_header) [0, 0, 0, 0, 0, 0]
     (regsToPose (\<lambda>v. v) (sfeQwiicOtos_init demo_header) [0x10, 0, 0x20, 0, 0, 1] 0.001 0.001)
     1000 1000 = [0x10, 0, 0x20, 0, 0, 1]"
  by (simp add: poseToRegs_def regsToPose_def regs_int16_def sfeQwiicOtos_init_def
      demo_header_def float_to_int_def)

lemma pose_round_trip_down:
  "poseToRegs (\<lambda>v. v - \<bar>v\<bar> / 2 ^ 24) (sfeQwiicOtos_init demo_header) [0, 0, 0, 0, 0, 0]
     (regsToPose (\<lambda>v. v - \<bar>v\<bar> / 2 ^ 24) (sfeQwiicOtos_init demo_header)
        [0x10, 0, 0x20, 0, 0, 1] 0.001 0.001)
     1000 1000 = [0x0F, 0, 0x1F, 0, 0xFF, 0]"
  by (simp add: poseToRegs_def regsToPose_def regs_int16_def sfeQwiicOtos_init_def
      demo_header_def float_to_int_def)

lemma pose_codec_round_trip:
  assumes fl: "rounds_to_nearest fl"
    and xy: "\<bar>xyToRaw * rawToXY - 1\<bar> \<le> 1 / 2 ^ 24"
    and hh: "\<bar>hToRaw * rawToH - 1\<bar> \<le> 1 / 2 ^ 24"
    and sxy: "magnitude_within 40 rawToXY"
    and sh: "magnitude_within 40 rawToH"
    and um: "magnitude_within 40 (meterToUnit this)"
    and ur: "magnitude_within 40 (radToUnit this)"
    and len: "length rawData = 6" "length buf = 6"
    and out: "out = poseToRegs fl this buf (regsToPose fl this rawData rawToXY rawToH) xyToRaw hToRaw"
  shows "length out = 6
       \<and> \<bar>int16_le (out ! 0) (out ! 1) - int16_le (rawData ! 0) (rawData ! 1)\<bar> \<le> 1
       \<and> \<bar>int16_le (out ! 0) (out ! 1)\<bar> \<le> \<bar>int16_le (rawData ! 0) (rawData ! 1)\<bar>
       \<and> \<bar>int16_le (out ! 2) (out ! 3) - int16_le (rawData ! 2) (rawData ! 3)\<bar> \<le> 1
       \<and> \<bar>int16_le (out ! 2) (out ! 3)\<bar> \<le> \<bar>int16_le (rawData ! 2) (rawData ! 3)\<bar>
       \<and> \<bar>int16_le (out ! 4) (out ! 5) - int16_le (rawData ! 4) (rawData ! 5)\<bar> \<le> 1
       \<and> \<bar>int16_le (out ! 4) (out ! 5)\<bar> \<le> \<bar>int16_le (rawData ! 4) (rawData ! 5)\<bar>"
proof -
  let ?pose = "regsToPose fl this rawData rawToXY rawToH"
  have px: "pose_x ?pose = fl (fl (real_of_int (sint (regs_int16 rawData 0)) * rawToXY) * meterToUnit this)"
    and py: "pose_y ?pose = fl (fl (real_of_int (sint (regs_int16 rawData 2)) * rawToXY) * meterToUnit this)"
    and ph: "pose_h ?pose = fl (fl (real_of_int (sint (regs_int16 rawData 4)) * rawToH) * radToUnit this)"
    by (simp_all add: regsToPose_def Let_def)
  have v0: "int16_le (xs ! 0) (xs ! 1) = sint (regs_int16 xs 0)"
    and v2: "int16_le (xs ! 2) (xs ! 3) = sint (regs_int16 xs 2)"
    and v4: "int16_le (xs ! 4) (xs ! 5) = sint (regs_int16 xs 4)" for xs
    by (simp_all add: regs_int16_value)
  have l: "length out = 6"
    unfolding out using len(2) by (simp add: poseToRegs_def Let_def)
  have x: "\<bar>sint (regs_int16 out 0) - sint (regs_int16 rawData 0)\<bar> \<le> 1
         \<and> \<bar>sint (regs_int16 out 0)\<bar> \<le> \<bar>sint (regs_int16 rawData 0)\<bar>"
    unfolding out regs_int16_poseToRegs[OF len(2)] px
    by (rule round_trip_int16[OF fl xy sxy um])
  have y: "\<bar>sint (regs_int16 out 2) - sint (regs_int16 rawData 2)\<bar> \<le> 1
         \<and> \<bar>sint (regs_int16 out 2)\<bar> \<le> \<bar>sint (regs_int16 rawData 2)\<bar>"
    unfolding out regs_int16_poseToRegs[OF len(2)] py
    by (rule round_trip_int16[OF fl xy sxy um])
  have h: "\<bar>sint (regs_int16 out 4) - sint (regs_int16 rawData 4)\<bar> \<le> 1
         \<and> \<bar>sint (regs_int16 out 4)\<bar> \<le> \<bar>sint (regs_int16 rawData 4)\<bar>"
    unfolding out regs_int16_poseToRegs[OF len(2)] ph
    by (rule round_trip_int16[OF fl hh sh ur])
  from l x y h show ?thesis
    unfolding v0 v2 v4 by simp
qed

text \<open>
  C9. Let every float operation round to nearest (zero is kept, and a value of normal
  magnitude is met within the relative error \<open>2^-24\<close>), let the encoding scale be the
  inverse of the decoding scale up to one such rounding, as the constants
  \<open>kMeterToInt16\<close> and \<open>kInt16ToMeter\<close> are, and let the scales and the unit factors
  have magnitudes between \<open>2^-40\<close> and \<open>2^40\<close>, so that no operation of the round
  trip leaves the normal range. Take any three signed 16-bit numbers and the six register
  bytes that hold them, low byte first. Decoding the bytes with \<open>regsToPose\<close> and
  encoding the pose again with \<open>poseToRegs\<close> stores six bytes that hold, in each of x,
  y and h, a number that differs from the original by at most 1 and is never larger in
  magnitude: what is lost is lost to the truncation. The numbers are read off the stored
  bytes by \<open>int16_le\<close>, not by the decoder. (\<open>pose_codec_round_trip\<close> says the same of
  any six bytes.)
\<close>

theorem pose_round_trip:
  assumes fl: "rounds_to_nearest fl"
    and xy: "\<bar>xyToRaw * rawToXY - 1\<bar> \<le> 1 / 2 ^ 24"
    and hh: "\<bar>hToRaw * rawToH - 1\<bar> \<le> 1 / 2 ^ 24"
    and sxy: "magnitude_within 40 rawToXY"
    and sh: "magnitude_within 40 rawToH"
    and um: "magnitude_within 40 (meterToUnit this)"
    and ur: "magnitude_within 40 (radToUnit this)"
    and vx: "- 32768 \<le> vx" "vx \<le> 32767"
    and vy: "- 32768 \<le> vy" "vy \<le> 32767"
    and vh: "- 32768 \<le> vh" "vh \<le> 32767"
    and raw: "rawData = [word_of_int vx, word_of_int (vx div 256),
                         word_of_int vy, word_of_int (vy div 256),
                         word_of_int vh, word_of_int (vh div 256)]"
    and len: "length buf = 6"
    and out: "out = poseToRegs fl this buf (regsToPose fl this rawData rawToXY rawToH) xyToRaw hToRaw"
  shows "length out = 6
       \<and> \<bar>int16_le (out ! 0) (out ! 1) - vx\<bar> \<le> 1 \<and> \<bar>int16_le (out ! 0) (out ! 1)\<bar> \<le> \<bar>vx\<bar>
       \<and> \<bar>int16_le (out ! 2) (out ! 3) - vy\<bar> \<le> 1 \<and> \<bar>int16_le (out ! 2) (out ! 3)\<bar> \<le> \<bar>vy\<bar>
       \<and> \<bar>int16_le (out ! 4) (out ! 5) - vh\<bar> \<le> 1 \<and> \<bar>int16_le (out ! 4) (out ! 5)\<bar> \<le> \<bar>vh\<bar>"
proof -
  have l: "length rawData = 6"
    by (simp add: raw)
  have x: "int16_le (rawData ! 0) (rawData ! 1) = vx"
    and y: "int16_le (rawData ! 2) (rawData ! 3) = vy"
    and h: "int16_le (rawData ! 4) (rawData ! 5) = vh"
    by (simp_all add: raw int16_le_bytes vx vy vh)
  from pose_codec_round_trip[OF fl xy hh sxy sh um ur l len out] show ?thesis
    unfolding x y h .
qed

theorem pose_round_trip_witness:
  "rounds_to_nearest (\<lambda>v. v - \<bar>v\<bar> / 2 ^ 24)
   \<and> magnitude_within 40 (0.001 :: real)
   \<and> magnitude_within 40 (meterToUnit (sfeQwiicOtos_init demo_header))
   \<and> magnitude_within 40 (radToUnit (sfeQwiicOtos_init demo_header))
   \<and> poseToRegs (\<lambda>v. v - \<bar>v\<bar> / 2 ^ 24) (sfeQwiicOtos_init demo_header) [0, 0, 0, 0, 0, 0]
        (regsToPose (\<lambda>v. v - \<bar>v\<bar> / 2 ^ 24) (sfeQwiicOtos_init demo_header)
           [0x10, 0, 0x20, 0, 0, 1] 0.001 0.001)
        1000 1000 = [0x0F, 0, 0x1F, 0, 0xFF, 0]
   \<and> \<bar>int16_le 0x0F 0 - 16\<bar> \<le> 1 \<and> \<bar>int16_le 0x0F 0\<bar> \<le> \<bar>16\<bar>
   \<and> \<bar>int16_le 0x1F 0 - 32\<bar> \<le> 1 \<and> \<bar>int16_le 0x1F 0\<bar> \<le> \<bar>32\<bar>
   \<and> \<bar>int16_le 0xFF 0 - 256\<bar> \<le> 1 \<and> \<bar>int16_le 0xFF 0\<bar> \<le> \<bar>256\<bar>"
proof -
  have s: "magnitude_within 40 (0.001 :: real)"
    by (simp add: magnitude_within_def)
  have u: "magnitude_within 40 (meterToUnit (sfeQwiicOtos_init demo_header))"
    "magnitude_within 40 (radToUnit (sfeQwiicOtos_init demo_header))"
    by (simp_all add: magnitude_within_def sfeQwiicOtos_init_def demo_header_def)
  have inv: "\<bar>1000 * 0.001 - 1 :: real\<bar> \<le> 1 / 2 ^ 24"
    by simp
  have raw: "[0x10, 0, 0x20, 0, 0, 1] =
      [word_of_int 16, word_of_int (16 div 256), word_of_int 32, word_of_int (32 div 256),
       word_of_int 256, word_of_int (256 div 256) :: u8]"
    by simp
  from pose_round_trip[OF rounds_to_nearest_down inv inv s s u _ _ _ _ _ _ raw _
      pose_round_trip_down[symmetric]]
  have b: "\<bar>int16_le 0x0F 0 - 16\<bar> \<le> 1 \<and> \<bar>int16_le 0x0F 0\<bar> \<le> \<bar>16\<bar>
     \<and> \<bar>int16_le 0x1F 0 - 32\<bar> \<le> 1 \<and> \<bar>int16_le 0x1F 0\<bar> \<le> \<bar>32\<bar>
     \<and> \<bar>int16_le 0xFF 0 - 256\<bar> \<le> 1 \<and> \<bar>int16_le 0xFF 0\<bar> \<le> \<bar>256\<bar>"
    by simp
  from rounds_to_nearest_down s u pose_round_trip_down b show ?thesis
    by (intro conjI) simp_all
qed

section \<open>The unit selectors and their factors\<close>

lemma setLinearUnit_consistent:
  "units_consistent hdr this \<Longrightarrow> units_consistent hdr (setLinearUnit hdr unit this)"
  by (cases unit) (auto simp: units_consistent_def setLinearUnit_def linear_factor_def)

lemma setAngularUnit_consistent:
  "units_consistent hdr this \<Longrightarrow> units_consistent hdr (setAngularUnit hdr unit this)"
  by (cases unit) (auto simp: units_consistent_def setAngularUnit_def angular_factor_def)

lemma call_consistent:
  "units_consistent hdr (fst cur) \<Longrightarrow> units_consistent hdr (fst (call fl hdr tr c cur))"
  by (cases c; cases cur) (simp_all add: setLinearUnit_consistent setAngularUnit_consistent)

lemma calls_consistent:
  "units_consistent hdr (fst cur) \<Longrightarrow> units_consistent hdr (fst (calls fl hdr tr cs cur))"
  unfolding calls_def
  by (induction cs arbitrary: cur) (simp_all add: call_consistent)

lemma init_consistent: "units_consistent hdr (sfeQwiicOtos_init hdr)"
  by (simp add: units_consistent_def sfeQwiicOtos_init_def linear_factor_def angular_factor_def)

text \<open>
  C6. After every sequence of calls on a freshly constructed driver object, the stored
  linear factor is the one that belongs to the stored linear unit (1 for meters, the
  meter-to-inch constant for inches), and the stored angular factor is the one that
  belongs to the stored angular unit. Calling \<open>setLinearUnit\<close> or \<open>setAngularUnit\<close>
  with the unit that is already active leaves the object (selector and factor) and the
  bus with its record of accesses exactly as they were.
\<close>

theorem unit_factor_follows_selector:
  "units_consistent hdr (fst (calls fl hdr tr cs (sfeQwiicOtos_init hdr, st)))
   \<and> call fl hdr tr (SetLinearUnit (linearUnit this)) (this, st') = (this, st')
   \<and> call fl hdr tr (SetAngularUnit (angularUnit this)) (this, st') = (this, st')"
  by (simp add: calls_consistent init_consistent setLinearUnit_def setAngularUnit_def)

end
